theory Spec2Isabelle
  imports Complex_Main
begin

section \<open>Common conventions\<close>

text \<open>
  The development embeds the time-stepping core of BoltzPy: \<^verbatim>\<open>boltzpy/compute.py\<close>,
  \<^verbatim>\<open>boltzpy/geometry.py\<close> and \<^verbatim>\<open>Grid.py\<close>.

  Conventions of the embedding:
  \<^item> NumPy float arrays are lists of \<open>real\<close>; a two-dimensional array is the list of its
    rows. Rounding, infinities and NaN are not modelled: the arithmetic of the transport
    and collision operators is exact. Where the grid turns floats into an integer, the
    float arithmetic is a parameter of the model.
  \<^item> Python integers are \<open>int\<close>; an integer used as an index follows Python's rule that
    \<open>-n \<le> i < 0\<close> counts from the end of an axis of length \<open>n\<close>.
  \<^item> A raised exception is a value of type \<open>error\<close>. A function that mutates an object
    and may raise returns \<open>Inl (e, obj)\<close>, the exception together with the object as the
    raise leaves it, or \<open>Inr obj\<close>, the object after a normal return.
\<close>

datatype error = AssertionError | IndexError | NotImplementedError | TypeError | ValueError

type_synonym matrix = "real list list"

section \<open>The simulation state consumed by \<^verbatim>\<open>compute.py\<close>\<close>

text \<open>
  The attributes of the \<^verbatim>\<open>data\<close> object that \<^verbatim>\<open>compute.py\<close> reads and writes.
  \<open>state\<close> and \<open>result\<close> have one row per grid point and one column per
  velocity, \<open>vG\<close> one row per velocity, \<open>col\<close> one row of four velocity indices per
  collision, \<open>col_mat\<close> one row per velocity and one column per collision.
\<close>

record sim_data =
  state :: matrix
  result :: matrix
  vG :: matrix
  velocity_offset :: "real list"
  dt :: real
  dp :: real
  p_dim :: int
  col :: "nat list list"
  col_mat :: matrix
  t :: int

type_synonym stage = "sim_data \<Rightarrow> (error \<times> sim_data) + sim_data"

subsection \<open>NumPy indexing\<close>

text \<open>
  A Python index \<open>i\<close> into an axis of length \<open>n\<close>: \<open>0 \<le> i < n\<close> is the position
  itself, \<open>-n \<le> i < 0\<close> counts from the end, anything else raises \<^verbatim>\<open>IndexError\<close>
  (the value \<open>None\<close> here).
\<close>

definition norm_index :: "nat \<Rightarrow> int \<Rightarrow> nat option" where
  "norm_index n i =
     (if 0 \<le> i \<and> i < int n then Some (nat i)
      else if - int n \<le> i \<and> i < 0 then Some (nat (i + int n))
      else None)"

text \<open>An integer index array: NumPy checks every entry before it reads or writes.\<close>

fun norm_indices :: "nat \<Rightarrow> int list \<Rightarrow> nat list option" where
  "norm_indices n [] = Some []"
| "norm_indices n (p # ps) =
     (case norm_index n p of
        None \<Rightarrow> None
      | Some j \<Rightarrow> (case norm_indices n ps of None \<Rightarrow> None | Some js \<Rightarrow> Some (j # js)))"

text \<open>\<^verbatim>\<open>A[:, k]\<close>\<close>

definition column :: "nat \<Rightarrow> 'a list list \<Rightarrow> 'a list" where
  "column k A = map (\<lambda>row. row ! k) A"

text \<open>\<^verbatim>\<open>np.where(cond)[0]\<close>: the positions at which a boolean vector is true, ascending.\<close>

definition np_where :: "bool list \<Rightarrow> nat list" where
  "np_where bs = filter (\<lambda>i. bs ! i) [0..<length bs]"

text \<open>\<^verbatim>\<open>A[ps, :]\<close> for an integer array \<open>ps\<close>: the selected rows, in the order of \<open>ps\<close>.\<close>

definition take_rows :: "matrix \<Rightarrow> int list \<Rightarrow> error + matrix" where
  "take_rows A ps =
     (case norm_indices (length A) ps of
        None \<Rightarrow> Inl IndexError
      | Some js \<Rightarrow> Inr (map (\<lambda>j. A ! j) js))"

text \<open>
  \<^verbatim>\<open>A[ps, :] = M\<close>: row \<open>k\<close> of \<open>M\<close> is stored at row \<open>ps[k]\<close>, in the order of
  \<open>ps\<close>, so that the last write to a repeated index stays.
\<close>

fun put_rows_at :: "matrix \<Rightarrow> nat list \<Rightarrow> matrix \<Rightarrow> matrix" where
  "put_rows_at A (j # js) (r # rs) = put_rows_at (A[j := r]) js rs"
| "put_rows_at A _ _ = A"

definition put_rows :: "matrix \<Rightarrow> int list \<Rightarrow> matrix \<Rightarrow> error + matrix" where
  "put_rows A ps M =
     (case norm_indices (length A) ps of
        None \<Rightarrow> Inl IndexError
      | Some js \<Rightarrow> Inr (put_rows_at A js M))"

text \<open>
  \<^verbatim>\<open>A[np.ix_(ps, cs)]\<close>: the sub-array of the rows \<open>ps\<close> and the columns \<open>cs\<close>.
  The two index arrays broadcast to the shape \<open>(len ps, len cs)\<close>; when that shape is
  empty NumPy reads nothing and does not check the indices. The column indices are
  positions that the callers have already brought into range.
\<close>

definition take_ix :: "matrix \<Rightarrow> int list \<Rightarrow> nat list \<Rightarrow> error + matrix" where
  "take_ix A ps cs =
     (if ps = [] \<or> cs = [] then Inr (map (\<lambda>_. []) ps)
      else (case norm_indices (length A) ps of
              None \<Rightarrow> Inl IndexError
            | Some js \<Rightarrow> Inr (map (\<lambda>j. map (\<lambda>c. A ! j ! c) cs) js)))"

text \<open>
  \<^verbatim>\<open>R[:, cs] = M\<close>: in every row, entry \<open>k\<close> of the row of \<open>M\<close> is stored at column
  \<open>cs[k]\<close>.
\<close>

definition put_cols :: "matrix \<Rightarrow> nat list \<Rightarrow> matrix \<Rightarrow> matrix" where
  "put_cols R cs M = map2 (\<lambda>row vals. fold (\<lambda>(c, x) r. r[c := x]) (zip cs vals) row) R M"

text \<open>\<^verbatim>\<open>w * M\<close> for a vector \<open>w\<close> and a matrix \<open>M\<close>: \<open>w\<close> is broadcast over the rows.\<close>

definition scale_rows :: "real list \<Rightarrow> matrix \<Rightarrow> matrix" where
  "scale_rows w M = map (\<lambda>row. map2 (\<lambda>a b. a * b) w row) M"

subsection \<open>Transport\<close>

text \<open>
  \<^verbatim>\<open>
  def transport_outflow_remains(data, affected_points):
      outflow_percentage = (np.abs(data.vG[:, 0] + data.velocity_offset[0])
                            * data.dt / data.dp)
      result = ((1 - outflow_percentage) * data.state[affected_points, :])
      return result
  \<close>
\<close>

definition transport_outflow_remains :: "sim_data \<Rightarrow> int list \<Rightarrow> error + matrix" where
  "transport_outflow_remains data affected_points =
     (let outflow_percentage =
            map (\<lambda>x. \<bar>x + velocity_offset data ! 0\<bar> * dt data / dp data) (column 0 (vG data))
      in case take_rows (state data) affected_points of
           Inl e \<Rightarrow> Inl e
         | Inr rows \<Rightarrow> Inr (scale_rows (map (\<lambda>x. 1 - x) outflow_percentage) rows))"

text \<open>\<^verbatim>\<open>pv = data.vG + data.velocity_offset\<close>: the offset is added to every row.\<close>

definition effective_velocities :: "sim_data \<Rightarrow> matrix" where
  "effective_velocities data = map (\<lambda>row. map2 (\<lambda>a b. a + b) row (velocity_offset data)) (vG data)"

text \<open>\<^verbatim>\<open>inflow_percentage = (data.dt / data.dp * np.abs(pv[:, 0]))\<close>\<close>

definition inflow_percentage :: "sim_data \<Rightarrow> real list" where
  "inflow_percentage data = map (\<lambda>x. dt data / dp data * \<bar>x\<bar>) (column 0 (effective_velocities data))"

text \<open>
  \<^verbatim>\<open>
  def transport_inflow_innerPoint(data, affected_points):
      pv = data.vG + data.velocity_offset
      inflow_percentage = (data.dt / data.dp * np.abs(pv[:, 0]))
      result = np.zeros((affected_points.size, data.vG.shape[0]), dtype=float)
      neg_vels = np.where(pv[:, 0] < 0)[0]
      result[:, neg_vels] = (inflow_percentage[neg_vels]
                             * data.state[np.ix_(affected_points + 1, neg_vels)])
      pos_vels = np.where(pv[:, 0] > 0)[0]
      result[:, pos_vels] = (inflow_percentage[pos_vels]
                             * data.state[np.ix_(affected_points - 1, pos_vels)])
      return result
  \<close>
\<close>

definition transport_inflow_innerPoint :: "sim_data \<Rightarrow> int list \<Rightarrow> error + matrix" where
  "transport_inflow_innerPoint data affected_points =
     (let pv = effective_velocities data;
          result0 = replicate (length affected_points) (replicate (length (vG data)) 0);
          neg_vels = np_where (map (\<lambda>x. x < 0) (column 0 pv))
      in case take_ix (state data) (map (\<lambda>p. p + 1) affected_points) neg_vels of
           Inl e \<Rightarrow> Inl e
         | Inr upper \<Rightarrow>
             (let result1 = put_cols result0 neg_vels
                    (scale_rows (map (\<lambda>v. inflow_percentage data ! v) neg_vels) upper);
                  pos_vels = np_where (map (\<lambda>x. 0 < x) (column 0 pv))
              in case take_ix (state data) (map (\<lambda>p. p - 1) affected_points) pos_vels of
                   Inl e \<Rightarrow> Inl e
                 | Inr lower \<Rightarrow>
                     Inr (put_cols result1 pos_vels
                            (scale_rows (map (\<lambda>v. inflow_percentage data ! v) pos_vels) lower))))"

text \<open>
  \<^verbatim>\<open>
  def transport_inflow_boundaryPoint(data, affected_points, incoming_velocities):
      pv = (data.vG + data.velocity_offset)[:, :]
      inflow_percentage = (data.dt / data.dp * np.abs(pv[:, 0]))
      result = np.zeros((affected_points.size, data.vG.shape[0]), dtype=float)
      neg_incomings_vels = np.where(pv[incoming_velocities, 0] < 0)[0]
      neg_vels = incoming_velocities[neg_incomings_vels]
      result[:, neg_vels] = (inflow_percentage[neg_vels]
                             * data.state[np.ix_(affected_points + 1, neg_vels)])
      pos_incomings_vels = np.where(pv[incoming_velocities, 0] > 0)[0]
      pos_vels = incoming_velocities[pos_incomings_vels]
      result[:, pos_vels] = (inflow_percentage[pos_vels]
                             * data.state[np.ix_(affected_points - 1, pos_vels)])
      return result
  \<close>
  \<open>incoming_velocities\<close> is an integer array. Its entries are brought into the range of
  the velocity axis once, at \<^verbatim>\<open>pv[incoming_velocities, 0]\<close>, where NumPy raises for an
  entry out of range; every later use indexes an axis of the same length.
\<close>

definition transport_inflow_boundaryPoint :: "sim_data \<Rightarrow> int list \<Rightarrow> int list \<Rightarrow> error + matrix" where
  "transport_inflow_boundaryPoint data affected_points incoming_velocities =
     (let pv = effective_velocities data;
          result0 = replicate (length affected_points) (replicate (length (vG data)) 0)
      in case norm_indices (length pv) incoming_velocities of
           None \<Rightarrow> Inl IndexError
         | Some incoming \<Rightarrow>
             (let pv_incoming = map (\<lambda>v. column 0 pv ! v) incoming;
                  neg_incomings_vels = np_where (map (\<lambda>x. x < 0) pv_incoming);
                  neg_vels = map (\<lambda>k. incoming ! k) neg_incomings_vels
              in case take_ix (state data) (map (\<lambda>p. p + 1) affected_points) neg_vels of
                   Inl e \<Rightarrow> Inl e
                 | Inr upper \<Rightarrow>
                     (let result1 = put_cols result0 neg_vels
                            (scale_rows (map (\<lambda>v. inflow_percentage data ! v) neg_vels) upper);
                          pos_incomings_vels = np_where (map (\<lambda>x. 0 < x) pv_incoming);
                          pos_vels = map (\<lambda>k. incoming ! k) pos_incomings_vels
                      in case take_ix (state data) (map (\<lambda>p. p - 1) affected_points) pos_vels of
                           Inl e \<Rightarrow> Inl e
                         | Inr lower \<Rightarrow>
                             Inr (put_cols result1 pos_vels
                                    (scale_rows (map (\<lambda>v. inflow_percentage data ! v) pos_vels)
                                       lower)))))"

text \<open>
  \<^verbatim>\<open>
  def transport_fdm_inner(data, affected_points):
      if data.p_dim != 1:
          raise NotImplementedError(message)
      data.result[affected_points, :] = transport_outflow_remains(data, affected_points)
      data.result[affected_points, :] += transport_inflow_innerPoint(data, affected_points)
      return
  \<close>
  The augmented assignment reads \<^verbatim>\<open>data.result[affected_points, :]\<close>, evaluates the
  right-hand side, adds and stores.
\<close>

definition transport_fdm_inner :: "sim_data \<Rightarrow> int list \<Rightarrow> (error \<times> sim_data) + sim_data" where
  "transport_fdm_inner data affected_points =
     (if p_dim data \<noteq> 1 then Inl (NotImplementedError, data)
      else case transport_outflow_remains data affected_points of
             Inl e \<Rightarrow> Inl (e, data)
           | Inr remains \<Rightarrow>
               (case put_rows (result data) affected_points remains of
                  Inl e \<Rightarrow> Inl (e, data)
                | Inr result1 \<Rightarrow>
                    (let data1 = data\<lparr>result := result1\<rparr>
                     in case take_rows (result data1) affected_points of
                          Inl e \<Rightarrow> Inl (e, data1)
                        | Inr old_rows \<Rightarrow>
                            (case transport_inflow_innerPoint data1 affected_points of
                               Inl e \<Rightarrow> Inl (e, data1)
                             | Inr inflow \<Rightarrow>
                                 (case put_rows (result data1) affected_points
                                         (map2 (\<lambda>r1 r2. map2 (\<lambda>a b. a + b) r1 r2) old_rows inflow) of
                                    Inl e \<Rightarrow> Inl (e, data1)
                                  | Inr result2 \<Rightarrow> Inr (data1\<lparr>result := result2\<rparr>))))))"

text \<open>
  \<^verbatim>\<open>
  def no_transport(data, affected_points):
      return
  \<close>
\<close>

definition no_transport :: "sim_data \<Rightarrow> int list \<Rightarrow> (error \<times> sim_data) + sim_data" where
  "no_transport data affected_points = Inr data"

subsection \<open>Collisions\<close>

text \<open>
  One pass of the loop body of \<^verbatim>\<open>euler_scheme\<close>:
  \<^verbatim>\<open>
      u_c0 = data.state[p, data.col[:, 0]]
      u_c1 = data.state[p, data.col[:, 1]]
      u_c2 = data.state[p, data.col[:, 2]]
      u_c3 = data.state[p, data.col[:, 3]]
      col_factor = (np.multiply(u_c0, u_c2) - np.multiply(u_c1, u_c3))
      data.state[p] += data.col_mat.dot(col_factor)
  \<close>
\<close>

definition col_factor :: "nat list list \<Rightarrow> real list \<Rightarrow> real list" where
  "col_factor quads row =
     (let u_c0 = map (\<lambda>c. row ! c) (column 0 quads);
          u_c1 = map (\<lambda>c. row ! c) (column 1 quads);
          u_c2 = map (\<lambda>c. row ! c) (column 2 quads);
          u_c3 = map (\<lambda>c. row ! c) (column 3 quads)
      in map2 (\<lambda>a b. a - b) (map2 (\<lambda>a b. a * b) u_c0 u_c2) (map2 (\<lambda>a b. a * b) u_c1 u_c3))"

text \<open>\<^verbatim>\<open>M.dot(x)\<close> for a matrix and a vector.\<close>

definition dot :: "matrix \<Rightarrow> real list \<Rightarrow> real list" where
  "dot M x = map (\<lambda>mrow. sum_list (map2 (\<lambda>a b. a * b) mrow x)) M"

definition euler_point :: "sim_data \<Rightarrow> int \<Rightarrow> (error \<times> sim_data) + sim_data" where
  "euler_point data p =
     (case norm_index (length (state data)) p of
        None \<Rightarrow> Inl (IndexError, data)
      | Some j \<Rightarrow>
          (let row = state data ! j
           in if \<exists>q \<in> set (col data). \<exists>c \<in> set (take 4 q). length row \<le> c
              then Inl (IndexError, data)
              else Inr (data\<lparr>state := (state data)
                          [j := map2 (\<lambda>a b. a + b) row (dot (col_mat data) (col_factor (col data) row))]\<rparr>)))"

text \<open>
  \<^verbatim>\<open>
  def euler_scheme(data, affected_points):
      for p in affected_points:
          ...
      return
  \<close>
\<close>

fun euler_scheme :: "sim_data \<Rightarrow> int list \<Rightarrow> (error \<times> sim_data) + sim_data" where
  "euler_scheme data [] = Inr data"
| "euler_scheme data (p # ps) =
     (case euler_point data p of
        Inl x \<Rightarrow> Inl x
      | Inr data1 \<Rightarrow> euler_scheme data1 ps)"

text \<open>
  \<^verbatim>\<open>
  def no_collisions(data, affected_points):
      return
  \<close>
\<close>

definition no_collisions :: "sim_data \<Rightarrow> int list \<Rightarrow> (error \<times> sim_data) + sim_data" where
  "no_collisions data affected_points = Inr data"

subsection \<open>Well-shaped simulation states\<close>

text \<open>
  The shapes that the arrays of one simulation share: \<open>state\<close> and \<open>result\<close> are
  \<open>P \<times> V\<close>, \<open>vG\<close> is \<open>V \<times> dim\<close> with \<open>dim \<ge> 1\<close>, \<open>velocity_offset\<close> has
  \<open>dim\<close> entries, \<open>col\<close> is \<open>K \<times> 4\<close> with entries below \<open>V\<close>, and \<open>col_mat\<close> is
  \<open>V \<times> K\<close>. NumPy raises or broadcasts on other shapes; they are outside the model.
\<close>

definition well_shaped :: "sim_data \<Rightarrow> bool" where
  "well_shaped data =
     ((\<forall>row \<in> set (state data). length row = length (vG data)) \<and>
      length (result data) = length (state data) \<and>
      (\<forall>row \<in> set (result data). length row = length (vG data)) \<and>
      0 < length (velocity_offset data) \<and>
      (\<forall>row \<in> set (vG data). length row = length (velocity_offset data)) \<and>
      (\<forall>q \<in> set (col data). length q = 4 \<and> (\<forall>c \<in> set q. c < length (vG data))) \<and>
      length (col_mat data) = length (vG data) \<and>
      (\<forall>mrow \<in> set (col_mat data). length mrow = length (col data)))"

subsection \<open>Operator splitting\<close>

text \<open>\<^verbatim>\<open>np.all(data.state >= 0)\<close>\<close>

definition all_nonneg :: "matrix \<Rightarrow> bool" where
  "all_nonneg A = (\<forall>row \<in> set A. \<forall>x \<in> set row. 0 \<le> x)"

text \<open>
  \<^verbatim>\<open>
  def operator_splitting(data, func_transport, func_collision):
      func_transport(data)
      func_collision(data)
      assert np.all(data.state >= 0)
      data.t += 1
  \<close>
\<close>

definition operator_splitting :: "sim_data \<Rightarrow> stage \<Rightarrow> stage \<Rightarrow> (error \<times> sim_data) + sim_data" where
  "operator_splitting data func_transport func_collision =
     (case func_transport data of
        Inl x \<Rightarrow> Inl x
      | Inr data1 \<Rightarrow>
          (case func_collision data1 of
             Inl x \<Rightarrow> Inl x
           | Inr data2 \<Rightarrow>
               if all_nonneg (state data2)
               then Inr (data2\<lparr>t := t data2 + 1\<rparr>)
               else Inl (AssertionError, data2)))"

section \<open>The rectangular grid of \<^verbatim>\<open>Grid.py\<close>\<close>

text \<open>
  The attributes of a \<^verbatim>\<open>Grid\<close>. \<open>boundaries\<close> is the array of rows \<open>[min, max]\<close>
  (\<^verbatim>\<open>__init__\<close> allocates three rows of zeros), \<open>d\<close> the step size, \<open>n\<close> the stored
  number of points. The attribute \<^verbatim>\<open>fType\<close> is the default \<^verbatim>\<open>float\<close> and is left out.

  \<^verbatim>\<open>Grid.py\<close> compares three attributes by identity (\<^verbatim>\<open>is\<close>), so the record holds
  what these tests depend on beside the values:
  \<^item> \<open>grid_d_literal\<close> tells whether the object \<^verbatim>\<open>self.d\<close> is the constant \<^verbatim>\<open>0.0\<close> of
    \<^verbatim>\<open>Grid.py\<close> itself (CPython keeps one object for the equal constants of a module);
  \<^item> \<open>grid_shape_interned\<close> tells whether the string object \<^verbatim>\<open>self.shape\<close> is interned,
    as every string literal spelled like an identifier is; a string built at run time is
    not;
  \<^item> for the integer \<^verbatim>\<open>self.n\<close> the value decides, see \<open>int_is\<close> below.
\<close>

record grid =
  grid_dim :: int
  grid_boundaries :: "(real \<times> real) list"
  grid_d :: real
  grid_d_literal :: bool
  grid_n :: int
  grid_shape :: string
  grid_shape_interned :: bool

text \<open>\<^verbatim>\<open>GRID_SHAPES = ['rectangular']\<close>\<close>

definition GRID_SHAPES :: "string list" where
  "GRID_SHAPES = [''rectangular'']"

text \<open>
  \<^verbatim>\<open>
  def __init__(self, data_type=float):
      self.dim = 0
      self.boundaries = np.zeros((3, 2), dtype=data_type)
      self.d = 0.0
      self.n = 0
      self.shape = 'NOT INITIALIZED'
  \<close>
\<close>

definition Grid_init :: grid where
  "Grid_init = \<lparr>grid_dim = 0, grid_boundaries = replicate 3 (0, 0), grid_d = 0,
                grid_d_literal = True, grid_n = 0,
                grid_shape = ''NOT INITIALIZED'', grid_shape_interned = False\<rparr>"

text \<open>
  A result of int64 arithmetic: NumPy wraps around modulo \<open>2^64\<close>.
\<close>

definition int64 :: "int \<Rightarrow> int" where
  "int64 x = (x + 2 ^ 63) mod 2 ^ 64 - 2 ^ 63"

text \<open>
  \<^verbatim>\<open>
  def __compute_n(self):
      assert self.d is not 0.0
      assert not np.array_equal(self.boundaries, np.zeros((3, 2), dtype=self.fType))
      if self.shape is 'rectangular':
          _l = self.boundaries[:, 1] - self.boundaries[:, 0]
          _n_dim = np.array(np.ceil(_l / self.d) + 1, dtype=int)
          return int(_n_dim.prod())
      else:
          print("ERROR - Unspecified Grid Shape")
          assert False
  \<close>
  The first assertion and the test of the shape compare objects: the assertion fails only
  for the constant \<^verbatim>\<open>0.0\<close> of \<^verbatim>\<open>Grid.py\<close>, and the test succeeds only for an interned
  string \<^verbatim>\<open>'rectangular'\<close>.

  The entries of \<^verbatim>\<open>_n_dim\<close> come from float64 arithmetic (a rounded difference, a rounded
  quotient, also by a zero step, \<^verbatim>\<open>np.ceil\<close>, a rounded sum) followed by the conversion
  to int64. The model does not fix this arithmetic: the parameter \<open>n_dim\<close> gives, for a
  row \<open>[lo, hi]\<close> and a step \<open>d\<close>, the int64 that NumPy obtains,
  \<open>n_dim lo hi d\<close> for \<^verbatim>\<open>int(np.ceil((hi - lo) / d) + 1)\<close>. The product runs over every
  row of \<open>boundaries\<close> and is an int64 product.
\<close>

definition compute_n :: "(real \<Rightarrow> real \<Rightarrow> real \<Rightarrow> int) \<Rightarrow> grid \<Rightarrow> error + int" where
  "compute_n n_dim g =
     (if grid_d_literal g then Inl AssertionError
      else if grid_boundaries g = replicate 3 (0, 0) then Inl AssertionError
      else if grid_shape g = ''rectangular'' \<and> grid_shape_interned g
      then Inr (int64 (prod_list (map (\<lambda>(lo, hi). n_dim lo hi (grid_d g)) (grid_boundaries g))))
      else Inl AssertionError)"

text \<open>
  \<^verbatim>\<open>a is b\<close> for two integer objects that were created separately: CPython shares the
  objects of the integers from \<open>-5\<close> to \<open>256\<close> and creates a new object for every
  other result.
\<close>

definition int_is :: "int \<Rightarrow> int \<Rightarrow> bool" where
  "int_is a b = (a = b \<and> - 5 \<le> a \<and> a \<le> 256)"

text \<open>
  \<^verbatim>\<open>
  def check_integrity(self):
      assert type(self.dim) is int
      assert self.dim in [1, 2, 3]
      assert type(self.boundaries) is np.ndarray
      assert self.boundaries.dtype == self.fType
      assert self.boundaries.shape == (3, 2)
      assert type(self.d) is self.fType
      assert self.d > 0
      assert type(self.n) is int
      assert self.n >= 2
      assert self.shape in Grid.GRID_SHAPES
      assert self.n is self.__compute_n()
      assert type(self.fType) in [type, np.dtype]
  \<close>
  The assertions on types hold by the typing of the record. \<open>Grid\<close> and \<open>Geometry\<close>
  both have a method of this name; the one of the grid is \<open>Grid_check_integrity\<close>.
  \<^verbatim>\<open>self.__compute_n()\<close> returns a new integer object at every call.
\<close>

definition Grid_check_integrity :: "(real \<Rightarrow> real \<Rightarrow> real \<Rightarrow> int) \<Rightarrow> grid \<Rightarrow> error + unit" where
  "Grid_check_integrity n_dim g =
     (if grid_dim g \<notin> {1, 2, 3} then Inl AssertionError
      else if length (grid_boundaries g) \<noteq> 3 then Inl AssertionError
      else if \<not> 0 < grid_d g then Inl AssertionError
      else if \<not> 2 \<le> grid_n g then Inl AssertionError
      else if grid_shape g \<notin> set GRID_SHAPES then Inl AssertionError
      else (case compute_n n_dim g of
              Inl e \<Rightarrow> Inl e
            | Inr m \<Rightarrow> if int_is (grid_n g) m then Inr () else Inl AssertionError))"

text \<open>
  The end of the slice \<^verbatim>\<open>0:k\<close> on an axis of length \<open>len\<close>: a negative \<open>k\<close> counts
  from the end, and the slice is clipped to the axis.
\<close>

definition slice_stop :: "nat \<Rightarrow> int \<Rightarrow> nat" where
  "slice_stop len k = (if k < 0 then nat (max 0 (int len + k)) else min (nat k) len)"

text \<open>
  \<^verbatim>\<open>xs[0:k, :] = src\<close>: \<open>src\<close> must have as many rows as the slice, or one row, which is
  broadcast; otherwise NumPy raises \<^verbatim>\<open>ValueError\<close>.
\<close>

definition assign_slice :: "'a list \<Rightarrow> int \<Rightarrow> 'a list \<Rightarrow> error + 'a list" where
  "assign_slice xs k src =
     (let m = slice_stop (length xs) k
      in if length src = m then Inr (src @ drop m xs)
         else if length src = 1 then Inr (replicate m (hd src) @ drop m xs)
         else Inl ValueError)"

text \<open>
  \<^verbatim>\<open>
  def __initialize_without_n(self, dim, boundaries, d, shape):
      self.dim = dim
      self.boundaries[0:dim, :] = np.array(boundaries, dtype=self.fType)
      self.d = self.fType(d)
      self.shape = shape
      self.n = self.__compute_n()
  \<close>
  The step that the caller passes is an object of the caller, not the constant \<^verbatim>\<open>0.0\<close>
  of \<^verbatim>\<open>Grid.py\<close>. The shape is a string with its interning, \<open>(characters, interned)\<close>.
\<close>

definition initialize_without_n ::
  "(real \<Rightarrow> real \<Rightarrow> real \<Rightarrow> int) \<Rightarrow> grid \<Rightarrow> int \<Rightarrow> (real \<times> real) list \<Rightarrow> real \<Rightarrow>
   string \<times> bool \<Rightarrow> error + grid" where
  "initialize_without_n n_dim g dim0 boundaries d shape0 =
     (case assign_slice (grid_boundaries g) dim0 boundaries of
        Inl e \<Rightarrow> Inl e
      | Inr bs \<Rightarrow>
          (let g1 = g\<lparr>grid_dim := dim0, grid_boundaries := bs, grid_d := d,
                      grid_d_literal := False,
                      grid_shape := fst shape0, grid_shape_interned := snd shape0\<rparr>
           in case compute_n n_dim g1 of
                Inl e \<Rightarrow> Inl e
              | Inr m \<Rightarrow> Inr (g1\<lparr>grid_n := m\<rparr>)))"

text \<open>
  \<^verbatim>\<open>
  def initialize(self, dim, boundaries, d, n, shape):
      # Case Switches, 3 possible cases
      sw_b = boundaries is not None
      sw_d = d is not None
      sw_n = n is not None
      # Total number not defined
      if sw_b and sw_d and not sw_n:
          self.__initialize_without_n(dim, boundaries, d, shape)
      else:
          print('Exactly 2 of [Boundaries, Step Size, Total Number]'
                'must be submitted')
          assert False
  \<close>
  An argument that is \<^verbatim>\<open>None\<close> is \<open>None\<close>; the result is the grid after a normal return.
  The parameters \<^verbatim>\<open>dim\<close> and \<^verbatim>\<open>shape\<close> are written \<open>dim0\<close> and \<open>shape0\<close>.
\<close>

definition initialize ::
  "(real \<Rightarrow> real \<Rightarrow> real \<Rightarrow> int) \<Rightarrow> grid \<Rightarrow> int \<Rightarrow> (real \<times> real) list option \<Rightarrow> real option \<Rightarrow>
   int option \<Rightarrow> string \<times> bool \<Rightarrow> error + grid" where
  "initialize n_dim g dim0 boundaries d n shape0 =
     (let sw_b = (boundaries \<noteq> None);
          sw_d = (d \<noteq> None);
          sw_n = (n \<noteq> None)
      in if sw_b \<and> sw_d \<and> \<not> sw_n
         then initialize_without_n n_dim g dim0 (the boundaries) (the d) shape0
         else Inl AssertionError)"

section \<open>The geometry of \<^verbatim>\<open>boltzpy/geometry.py\<close>\<close>

text \<open>
  A \<^verbatim>\<open>Rule\<close> as the geometry uses it: the array of the points it owns, its initial
  state, and its methods. The subclasses of \<^verbatim>\<open>Rule\<close> lie outside the embedded files,
  so a rule carries its methods as fields: \<open>rule_check_integrity r c\<close> tells whether the
  assertions of \<^verbatim>\<open>r.check_integrity(complete_check=c, context=None)\<close> pass,
  \<open>rule_transport r\<close> is \<^verbatim>\<open>r.transport\<close> and \<open>rule_collision r\<close> is
  \<^verbatim>\<open>r.collision\<close>.
\<close>

record rule =
  affected_points :: "int list"
  initial_state :: "real list"
  rule_check_integrity :: "bool \<Rightarrow> bool"
  rule_transport :: stage
  rule_collision :: stage

text \<open>
  The attributes of a \<^verbatim>\<open>Geometry\<close>. \<open>shape\<close> may be \<^verbatim>\<open>None\<close>; \<^verbatim>\<open>__init__\<close>
  replaces a missing \<open>rules\<close> by the empty array.
\<close>

record geometry =
  shape :: "int list option"
  rules :: "rule list"

text \<open>\<^verbatim>\<open>SUPP_GRID_DIMENSIONS = {1, 2}\<close> of \<^verbatim>\<open>boltzpy/constants.py\<close>\<close>

definition SUPP_GRID_DIMENSIONS :: "nat set" where
  "SUPP_GRID_DIMENSIONS = {1, 2}"





text \<open>
  \<^verbatim>\<open>
  def check_parameters(ndim=None, shape=None, rules=None, complete_check=False, context=None):
      assert isinstance(complete_check, bool)
      if complete_check is True:
          assert all(param_val is not None
                     for (param_key, param_val) in locals().items()
                     if param_key != "context")
      ...
      if ndim is not None:
          assert isinstance(ndim, int)
          assert ndim in bp_c.SUPP_GRID_DIMENSIONS
      if shape is not None:
          assert isinstance(shape, np.ndarray)
          assert shape.dtype == int
          assert np.all(shape >= 1)
          ...
      if rules is not None:
          ...
          for rule in rules:
              assert isinstance(rule, bp.Rule)
              rule.check_integrity(complete_check=complete_check, context=context)
          affected_points = list()
          for rule in rules:
              affected_points += list(rule.affected_points)
          assert len(affected_points) == len(set(affected_points)), (...)
          ...
          if complete_check:
              assert len(affected_points) == np.prod(shape)
          sizes_of_model = list(rule.initial_state.size for rule in rules)
          assert len(set(sizes_of_model)) in [0, 1], (...)
      if ndim is not None and shape is not None:
          assert len(shape) == ndim
      return
  \<close>
  Every caller in \<^verbatim>\<open>geometry.py\<close> passes \<^verbatim>\<open>context=None\<close>, and the branches for a
  context are left out. Every failure is an \<^verbatim>\<open>AssertionError\<close>, so the function is the
  conjunction of its assertions, in the order of the source. The parameters are written
  \<open>ndim0\<close>, \<open>shape0\<close> and \<open>rules0\<close>.
\<close>

definition check_rules :: "int list option \<Rightarrow> rule list \<Rightarrow> bool \<Rightarrow> bool" where
  "check_rules shape0 rules0 complete_check =
     ((\<forall>r \<in> set rules0. rule_check_integrity r complete_check) \<and>
      (let points = concat (map affected_points rules0)
       in length points = card (set points) \<and>
          (complete_check \<longrightarrow>
             (case shape0 of None \<Rightarrow> False | Some s \<Rightarrow> int (length points) = prod_list s))) \<and>
      card (set (map (\<lambda>r. length (initial_state r)) rules0)) \<in> {0, 1})"

definition check_parameters ::
  "nat option \<Rightarrow> int list option \<Rightarrow> rule list option \<Rightarrow> bool \<Rightarrow> error + unit" where
  "check_parameters ndim0 shape0 rules0 complete_check =
     (if (complete_check \<longrightarrow> ndim0 \<noteq> None \<and> shape0 \<noteq> None \<and> rules0 \<noteq> None) \<and>
         (case ndim0 of None \<Rightarrow> True | Some k \<Rightarrow> k \<in> SUPP_GRID_DIMENSIONS) \<and>
         (case shape0 of None \<Rightarrow> True | Some s \<Rightarrow> \<forall>x \<in> set s. 1 \<le> x) \<and>
         (case rules0 of None \<Rightarrow> True | Some rs \<Rightarrow> check_rules shape0 rs complete_check) \<and>
         (case (ndim0, shape0) of (Some k, Some s) \<Rightarrow> length s = k | _ \<Rightarrow> True)
      then Inr ()
      else Inl AssertionError)"


text \<open>
  \<^verbatim>\<open>
  def __init__(self, shape=None, rules=None):
      ...
      self.check_parameters(shape=shape, rules=rules)
      self.shape = shape
      if rules is None:
          rules = np.empty((0,), dtype=bp.Rule)
      self.rules = rules
  \<close>
\<close>

definition Geometry_init :: "int list option \<Rightarrow> rule list option \<Rightarrow> error + geometry" where
  "Geometry_init shape0 rules0 =
     (case check_parameters None shape0 rules0 False of
        Inl e \<Rightarrow> Inl e
      | Inr _ \<Rightarrow> Inr \<lparr>shape = shape0, rules = (case rules0 of None \<Rightarrow> [] | Some rs \<Rightarrow> rs)\<rparr>)"



text \<open>Calling the same method of every rule in turn; the first exception ends the loop.\<close>

fun run_stages :: "stage list \<Rightarrow> stage" where
  "run_stages [] data = Inr data"
| "run_stages (f # fs) data =
     (case f data of
        Inl x \<Rightarrow> Inl x
      | Inr data1 \<Rightarrow> run_stages fs data1)"

text \<open>
  \<^verbatim>\<open>
  def collision(self, data):
      for rule in self.rules:
          rule.collision(data)
      return

  def transport(self, data):
      for rule in self.rules:
          rule.transport(data)
      # update data.state (transport writes into data.result)
      data.state[...] = data.result[...]
      return
  \<close>
  The last statement copies the result buffer into the array \<open>state\<close>, see
  \<open>copy_into\<close>.
\<close>

definition Geometry_collision :: "geometry \<Rightarrow> stage" where
  "Geometry_collision g data = run_stages (map rule_collision (rules g)) data"

text \<open>
  The shape of a two-dimensional array. An array without rows has no columns in the
  model.
\<close>

definition shape_of :: "matrix \<Rightarrow> nat \<times> nat" where
  "shape_of A = (length A, case A of [] \<Rightarrow> 0 | row # _ \<Rightarrow> length row)"

text \<open>
  \<^verbatim>\<open>A[...] = B[...]\<close> for two-dimensional arrays: the entries of \<open>B\<close> are copied into
  the array \<open>A\<close>, which keeps its shape. \<open>B\<close> is broadcast to the shape of \<open>A\<close>: an
  axis of \<open>B\<close> must have the length of the axis of \<open>A\<close> or the length one, in which case
  its single entry is repeated; otherwise NumPy raises \<^verbatim>\<open>ValueError\<close>.
\<close>

definition copy_into :: "matrix \<Rightarrow> matrix \<Rightarrow> error + matrix" where
  "copy_into A B =
     (case (shape_of A, shape_of B) of
        ((m, n), (r, c)) \<Rightarrow>
          if (r = m \<or> r = 1) \<and> (c = n \<or> c = 1)
          then Inr (map (\<lambda>i. map (\<lambda>v. B ! (if r = 1 then 0 else i) ! (if c = 1 then 0 else v))
                                [0..<n])
                      [0..<m])
          else Inl ValueError)"

definition Geometry_transport :: "geometry \<Rightarrow> stage" where
  "Geometry_transport g data =
     (case run_stages (map rule_transport (rules g)) data of
        Inl x \<Rightarrow> Inl x
      | Inr data1 \<Rightarrow>
          (case copy_into (state data1) (result data1) of
             Inl e \<Rightarrow> Inl (e, data1)
           | Inr new_state \<Rightarrow> Inr (data1\<lparr>state := new_state\<rparr>)))"

section \<open>Notions used in the statements and proofs\<close>

text \<open>
  \<open>row_at A p\<close> is \<^verbatim>\<open>A[p]\<close> for a Python index \<open>p\<close> that is in range; out of range it
  is the empty row.
\<close>

definition row_at :: "matrix \<Rightarrow> int \<Rightarrow> real list" where
  "row_at A p = (case norm_index (length A) p of None \<Rightarrow> [] | Some j \<Rightarrow> A ! j)"

text \<open>
  \<open>pv0 data v\<close> is \<^verbatim>\<open>pv[v, 0]\<close>, the first component of the effective velocity
  \<^verbatim>\<open>pv = vG + velocity_offset\<close> of the velocity index \<open>v\<close>.
\<close>

definition pv0 :: "sim_data \<Rightarrow> nat \<Rightarrow> real" where
  "pv0 data v = vG data ! v ! 0 + velocity_offset data ! 0"

text \<open>
  The inflow of the generic scheme into the point \<open>p\<close> at the velocity index \<open>v\<close>: the
  fraction \<open>\<bar>pv0\<bar> * dt / dp\<close> of the upwind neighbour, \<^verbatim>\<open>state[p + 1, v]\<close> for a negative
  and \<^verbatim>\<open>state[p - 1, v]\<close> for a positive velocity.
\<close>

definition inflow_entry :: "sim_data \<Rightarrow> int \<Rightarrow> nat \<Rightarrow> real" where
  "inflow_entry data p v =
     (if pv0 data v < 0 then \<bar>pv0 data v\<bar> * dt data / dp data * row_at (state data) (p + 1) ! v
      else if 0 < pv0 data v then \<bar>pv0 data v\<bar> * dt data / dp data * row_at (state data) (p - 1) ! v
      else 0)"

text \<open>
  The part that \<open>transport_inflow_innerPoint\<close> and \<open>transport_inflow_boundaryPoint\<close>
  share: reading the two neighbour blocks and storing the scaled columns, for given lists
  of negative and positive velocity indices.
\<close>

definition inflow_cols :: "sim_data \<Rightarrow> int list \<Rightarrow> nat list \<Rightarrow> nat list \<Rightarrow> error + matrix" where
  "inflow_cols data points neg_vels pos_vels =
     (case take_ix (state data) (map (\<lambda>p. p + 1) points) neg_vels of
        Inl e \<Rightarrow> Inl e
      | Inr upper \<Rightarrow>
          (case take_ix (state data) (map (\<lambda>p. p - 1) points) pos_vels of
             Inl e \<Rightarrow> Inl e
           | Inr lower \<Rightarrow>
               Inr (put_cols
                      (put_cols (replicate (length points) (replicate (length (vG data)) 0))
                         neg_vels (scale_rows (map (\<lambda>v. inflow_percentage data ! v) neg_vels) upper))
                      pos_vels (scale_rows (map (\<lambda>v. inflow_percentage data ! v) pos_vels) lower))))"

text \<open>
  The same quantities for a row number \<open>j\<close> instead of a Python index: the neighbours of
  row \<open>j\<close> are the rows \<open>j + 1\<close> and \<open>j - 1\<close> modulo the number of rows.
\<close>

definition inflow_at_row :: "sim_data \<Rightarrow> nat \<Rightarrow> nat \<Rightarrow> real" where
  "inflow_at_row data j v =
     (if vG data ! v ! 0 + velocity_offset data ! 0 < 0
      then \<bar>vG data ! v ! 0 + velocity_offset data ! 0\<bar> * dt data / dp data *
           state data ! nat ((int j + 1) mod int (length (state data))) ! v
      else if 0 < vG data ! v ! 0 + velocity_offset data ! 0
      then \<bar>vG data ! v ! 0 + velocity_offset data ! 0\<bar> * dt data / dp data *
           state data ! nat ((int j - 1) mod int (length (state data))) ! v
      else 0)"

definition remains_row :: "sim_data \<Rightarrow> nat \<Rightarrow> real list" where
  "remains_row data j =
     map2 (\<lambda>a b. a * b)
       (map (\<lambda>x. 1 - x)
          (map (\<lambda>x. \<bar>x + velocity_offset data ! 0\<bar> * dt data / dp data) (column 0 (vG data))))
       (state data ! j)"

text \<open>The row that one pass of the loop of \<open>euler_scheme\<close> stores for the row \<open>row\<close>.\<close>

definition collided_row :: "sim_data \<Rightarrow> real list \<Rightarrow> real list" where
  "collided_row data row =
     map2 (\<lambda>a b. a + b) row (dot (col_mat data) (col_factor (col data) row))"

section \<open>Example inputs\<close>

text \<open>
  A state of one grid point and two velocities, and three stages that change every entry
  of \<open>state\<close>: they make the order and the number of the calls visible in the result.
\<close>

definition demo_data :: sim_data where
  "demo_data = \<lparr>state = [[0, 1]], result = [[0, 0]], vG = [[0], [0]], velocity_offset = [0],
     dt = 1, dp = 1, p_dim = 1, col = [], col_mat = [[], []], t = 7\<rparr>"

definition add_one :: stage where
  "add_one data = Inr (data\<lparr>state := map (map (\<lambda>x. x + 1)) (state data)\<rparr>)"

definition double :: stage where
  "double data = Inr (data\<lparr>state := map (map (\<lambda>x. 2 * x)) (state data)\<rparr>)"

definition minus_two :: stage where
  "minus_two data = Inr (data\<lparr>state := map (map (\<lambda>x. x - 2)) (state data)\<rparr>)"

text \<open>
  The entry of \<^verbatim>\<open>_n_dim\<close> in exact arithmetic. Float64 arithmetic gives the same number
  wherever the difference, the quotient and the sum are exact, as they are for integers
  of moderate size.
\<close>

definition exact_n_dim :: "real \<Rightarrow> real \<Rightarrow> real \<Rightarrow> int" where
  "exact_n_dim lo hi d = \<lceil>(hi - lo) / d\<rceil> + 1"

text \<open>
  The grid of the interval \<open>[0, 256]\<close> with step \<open>1\<close>, as \<open>initialize\<close> leaves it:
  \<open>257\<close> points.
\<close>

definition grid257 :: grid where
  "grid257 = \<lparr>grid_dim = 1, grid_boundaries = [(0, 256), (0, 0), (0, 0)], grid_d = 1,
              grid_d_literal = False, grid_n = 257,
              grid_shape = ''rectangular'', grid_shape_interned = True\<rparr>"

text \<open>
  Rules whose methods are the functions of \<^verbatim>\<open>compute.py\<close>: a rule of constant points
  (no transport, no collisions) and a rule of inner points (finite differences and the
  Euler scheme). Their own integrity checks pass.
\<close>

definition constant_rule :: "int list \<Rightarrow> rule" where
  "constant_rule ps = \<lparr>affected_points = ps, initial_state = [1, 1],
     rule_check_integrity = (\<lambda>complete_check. True),
     rule_transport = (\<lambda>data. no_transport data ps),
     rule_collision = (\<lambda>data. no_collisions data ps)\<rparr>"

definition inner_rule :: "int list \<Rightarrow> rule" where
  "inner_rule ps = \<lparr>affected_points = ps, initial_state = [1, 1],
     rule_check_integrity = (\<lambda>complete_check. True),
     rule_transport = (\<lambda>data. transport_fdm_inner data ps),
     rule_collision = (\<lambda>data. euler_scheme data ps)\<rparr>"

text \<open>Three points: a point of constant state at each end, an inner point between them.\<close>

definition geometry3 :: geometry where
  "geometry3 = \<lparr>shape = Some [3], rules = [constant_rule [0], inner_rule [1], constant_rule [2]]\<rparr>"


text \<open>One constant point whose row of the result buffer differs from its row of the state.\<close>

definition stale_data :: sim_data where
  "stale_data = \<lparr>state = [[1, 2]], result = [[0, 0]], vG = [[0], [0]], velocity_offset = [0],
     dt = 1, dp = 1, p_dim = 1, col = [], col_mat = [[], []], t = 0\<rparr>"

definition geometry_constant :: geometry where
  "geometry_constant = \<lparr>shape = Some [1], rules = [constant_rule [0]]\<rparr>"

text \<open>
  Three points and three velocities with first components \<open>-1\<close>, \<open>0\<close> and \<open>1\<close>, one
  collision; \<open>synced_data\<close> is the same state with the result buffer holding a copy of
  \<open>state\<close>.
\<close>

definition flow_data :: sim_data where
  "flow_data = \<lparr>state = [[1, 2, 3], [4, 5, 6], [7, 8, 9]],
     result = [[0, 0, 0], [0, 0, 0], [0, 0, 0]],
     vG = [[- 1, 0], [0, 0], [1, 0]], velocity_offset = [0, 0], dt = 1, dp = 2, p_dim = 1,
     col = [[0, 1, 2, 1]], col_mat = [[1], [- 2], [1]], t = 0\<rparr>"

definition synced_data :: sim_data where
  "synced_data = flow_data\<lparr>result := [[1, 2, 3], [4, 5, 6], [7, 8, 9]]\<rparr>"

section \<open>Operator splitting: order of the step and the final assertion\<close>

text \<open>
  Claim C1. A call of \<open>operator_splitting\<close> returns normally exactly when the transport
  stage returns normally on the given object, the collision stage returns normally on
  what the transport stage left, and every entry of \<open>state\<close> is then non-negative; the
  object it returns is the one the collision stage left, with \<open>t\<close> increased by one.
  So each stage runs once, transport first, the assertion follows, and the counter is
  advanced last. With stages that leave \<open>t\<close> alone, \<open>t\<close> after the step is \<open>t\<close> before
  the step plus one.
\<close>

theorem operator_splitting_order:
  "(operator_splitting data func_transport func_collision = Inr data' \<longleftrightarrow>
     (\<exists>data1 data2.
        func_transport data = Inr data1 \<and>
        func_collision data1 = Inr data2 \<and>
        all_nonneg (state data2) \<and>
        data' = data2\<lparr>t := t data2 + 1\<rparr>)) \<and>
   ((\<forall>d d1. func_transport d = Inr d1 \<longrightarrow> t d1 = t d) \<and>
    (\<forall>d d1. func_collision d = Inr d1 \<longrightarrow> t d1 = t d) \<and>
    operator_splitting data func_transport func_collision = Inr data' \<longrightarrow>
      t data' = t data + 1)"
proof -
  have step: "operator_splitting data func_transport func_collision = Inr data' \<longleftrightarrow>
     (\<exists>data1 data2.
        func_transport data = Inr data1 \<and>
        func_collision data1 = Inr data2 \<and>
        all_nonneg (state data2) \<and>
        data' = data2\<lparr>t := t data2 + 1\<rparr>)"
    unfolding operator_splitting_def
    by (cases "func_transport data"; cases "func_collision (projr (func_transport data))") auto
  have "t data' = t data + 1"
    if "\<forall>d d1. func_transport d = Inr d1 \<longrightarrow> t d1 = t d"
      and "\<forall>d d1. func_collision d = Inr d1 \<longrightarrow> t d1 = t d"
      and "operator_splitting data func_transport func_collision = Inr data'"
  proof -
    from that(3) step obtain data1 data2 where
      "func_transport data = Inr data1" "func_collision data1 = Inr data2"
      "data' = data2\<lparr>t := t data2 + 1\<rparr>"
      by blast
    with that(1,2) have "t data2 = t data" by metis
    with \<open>data' = data2\<lparr>t := t data2 + 1\<rparr>\<close> show ?thesis by simp
  qed
  with step show ?thesis by blast
qed

theorem operator_splitting_order_witness:
  "operator_splitting demo_data add_one double = Inr (demo_data\<lparr>state := [[2, 4]], t := 8\<rparr>) \<and>
   t (demo_data\<lparr>state := [[2, 4]], t := 8\<rparr>) = t demo_data + 1"
proof -
  have r: "operator_splitting demo_data add_one double = Inr (demo_data\<lparr>state := [[2, 4]], t := 8\<rparr>)"
    using operator_splitting_order [of demo_data add_one double "demo_data\<lparr>state := [[2, 4]], t := 8\<rparr>"]
    by (simp add: demo_data_def add_one_def double_def all_nonneg_def)
  have "\<forall>d d1. add_one d = Inr d1 \<longrightarrow> t d1 = t d" and "\<forall>d d1. double d = Inr d1 \<longrightarrow> t d1 = t d"
    by (auto simp: add_one_def double_def)
  with r operator_splitting_order [of demo_data add_one double "demo_data\<lparr>state := [[2, 4]], t := 8\<rparr>"]
  have "t (demo_data\<lparr>state := [[2, 4]], t := 8\<rparr>) = t demo_data + 1"
    by blast
  with r show ?thesis by simp
qed

text \<open>
  Claim C4. When both stages have returned and some entry of \<open>state\<close> is negative, the
  step raises \<^verbatim>\<open>AssertionError\<close> and leaves the object as the collision stage left it:
  \<open>t\<close> is not advanced and nothing is rolled back. After the two stages the step either
  returns with \<open>t\<close> advanced by one or raises at the assertion.
\<close>

theorem operator_splitting_assertion:
  assumes "func_transport data = Inr data1" and "func_collision data1 = Inr data2"
  shows "((\<exists>row \<in> set (state data2). \<exists>x \<in> set row. x < 0) \<longrightarrow>
            operator_splitting data func_transport func_collision = Inl (AssertionError, data2)) \<and>
         (operator_splitting data func_transport func_collision = Inr (data2\<lparr>t := t data2 + 1\<rparr>) \<or>
          operator_splitting data func_transport func_collision = Inl (AssertionError, data2))"
proof -
  have "\<not> all_nonneg (state data2)" if "\<exists>row \<in> set (state data2). \<exists>x \<in> set row. x < 0"
    using that by (fastforce simp: all_nonneg_def)
  with assms show ?thesis by (simp add: operator_splitting_def)
qed

theorem operator_splitting_assertion_witness:
  "operator_splitting demo_data minus_two double
     = Inl (AssertionError, demo_data\<lparr>state := [[- 4, - 2]]\<rparr>)"
  using operator_splitting_assertion [of minus_two demo_data "demo_data\<lparr>state := [[- 2, - 1]]\<rparr>"
      double "demo_data\<lparr>state := [[- 4, - 2]]\<rparr>"]
  by (simp add: demo_data_def minus_two_def double_def)

section \<open>Grid: sizing parameters, point count and integrity\<close>

text \<open>
  Claim C5. \<open>initialize\<close> is meant to accept any two of boundaries, step size and total
  number. Called with boundaries and a total number, and no step size, it raises
  \<^verbatim>\<open>AssertionError\<close>: only the case "boundaries and step size" is implemented.
\<close>

theorem initialize_rejects_boundaries_with_count:
  "initialize n_dim Grid_init 1 (Some [(0, 1)]) None (Some 3) (''rectangular'', True) =
     Inl AssertionError"
  by (simp add: initialize_def)

lemma Grid_check_integrity_pass:
  assumes "Grid_check_integrity n_dim g = Inr ()"
  shows "compute_n n_dim g = Inr (grid_n g) \<and> 2 \<le> grid_n g \<and> grid_n g \<le> 256"
proof -
  from assms have n2: "2 \<le> grid_n g"
    unfolding Grid_check_integrity_def by (simp split: if_splits)
  from assms obtain m where m: "compute_n n_dim g = Inr m" "int_is (grid_n g) m"
    unfolding Grid_check_integrity_def by (simp split: if_splits sum.splits)
  then show ?thesis using n2 by (simp add: int_is_def)
qed

lemma Grid_check_integrity_cases:
  "Grid_check_integrity n_dim g = Inr () \<or> Grid_check_integrity n_dim g = Inl AssertionError"
proof -
  have "(\<exists>m. compute_n n_dim g = Inr m) \<or> compute_n n_dim g = Inl AssertionError"
    by (simp add: compute_n_def)
  then show ?thesis
    unfolding Grid_check_integrity_def by (auto split: sum.splits)
qed

text \<open>
  Claim C6. The integrity check is meant to assert that the stored number of points
  equals the recomputed one. It compares the two integers with \<^verbatim>\<open>is\<close>: a grid whose
  stored number is the recomputed number fails the check with \<^verbatim>\<open>AssertionError\<close> as
  soon as the number is above \<open>256\<close>, whatever the float arithmetic behind the
  recomputation is.
\<close>

theorem Grid_check_integrity_rejects_consistent:
  assumes "compute_n n_dim g = Inr (grid_n g)" and "256 < grid_n g"
  shows "Grid_check_integrity n_dim g = Inl AssertionError"
proof -
  have "Grid_check_integrity n_dim g \<noteq> Inr ()"
  proof
    assume "Grid_check_integrity n_dim g = Inr ()"
    from Grid_check_integrity_pass [OF this] assms(2) show False by simp
  qed
  with Grid_check_integrity_cases [of n_dim g] show ?thesis by blast
qed

theorem Grid_check_integrity_rejects_consistent_witness:
  "initialize exact_n_dim Grid_init 1 (Some [(0, 256)]) (Some 1) None (''rectangular'', True) =
     Inr grid257 \<and>
   compute_n exact_n_dim grid257 = Inr 257 \<and>
   grid_n grid257 = 257 \<and>
   Grid_check_integrity exact_n_dim grid257 = Inl AssertionError"
proof -
  have c: "compute_n exact_n_dim grid257 = Inr 257"
    by (simp add: compute_n_def grid257_def exact_n_dim_def int64_def numeral_3_eq_3)
  have i: "initialize exact_n_dim Grid_init 1 (Some [(0, 256)]) (Some 1) None (''rectangular'', True) =
     Inr grid257"
    by (simp add: initialize_def initialize_without_n_def assign_slice_def slice_stop_def
        Grid_init_def compute_n_def grid257_def exact_n_dim_def int64_def numeral_3_eq_3)
  have n: "grid_n grid257 = 257" by (simp add: grid257_def)
  from c n have "compute_n exact_n_dim grid257 = Inr (grid_n grid257)" and "256 < grid_n grid257"
    by simp_all
  from Grid_check_integrity_rejects_consistent [OF this] c i n show ?thesis by simp
qed

section \<open>Geometry: coverage of the points by the rules\<close>














section \<open>Index arrays, row and column assignment\<close>

lemma norm_index_less: "norm_index n i = Some j \<Longrightarrow> j < n"
  by (auto simp: norm_index_def split: if_splits)

lemma norm_index_int:
  assumes "norm_index n p = Some j"
  shows "int j = p mod int n"
proof (cases "0 \<le> p")
  case True
  with assms show ?thesis by (auto simp: norm_index_def split: if_splits)
next
  case False
  with assms have r: "- int n \<le> p" "p < 0" and j: "int j = p + int n"
    by (auto simp: norm_index_def split: if_splits)
  have "(p + int n) mod int n = p mod int n" by simp
  moreover have "(p + int n) mod int n = p + int n"
    by (rule mod_pos_pos_trivial) (use r in auto)
  ultimately show ?thesis using j by simp
qed

lemma norm_index_succ:
  assumes "norm_index n p = Some j" and "norm_index n (p + 1) = Some a"
  shows "a = nat ((int j + 1) mod int n)"
proof -
  have "int a = (p + 1) mod int n" using assms(2) by (rule norm_index_int)
  also have "\<dots> = (p mod int n + 1) mod int n" by (simp add: mod_add_left_eq)
  also have "\<dots> = (int j + 1) mod int n" using norm_index_int [OF assms(1)] by simp
  finally show ?thesis by simp
qed

lemma norm_index_pred:
  assumes "norm_index n p = Some j" and "norm_index n (p - 1) = Some b"
  shows "b = nat ((int j - 1) mod int n)"
proof -
  have "int b = (p - 1) mod int n" using assms(2) by (rule norm_index_int)
  also have "\<dots> = (p mod int n - 1) mod int n" by (simp add: mod_diff_left_eq)
  also have "\<dots> = (int j - 1) mod int n" using norm_index_int [OF assms(1)] by simp
  finally show ?thesis by simp
qed

lemma norm_indices_Some:
  "norm_indices n ps = Some js \<Longrightarrow>
   length js = length ps \<and> (\<forall>k < length ps. norm_index n (ps ! k) = Some (js ! k))"
proof (induction ps arbitrary: js)
  case Nil
  then show ?case by simp
next
  case (Cons p ps)
  then obtain j js' where j: "norm_index n p = Some j" "norm_indices n ps = Some js'" "js = j # js'"
    by (auto split: option.splits)
  with Cons.IH [of js'] show ?case by (auto simp: nth_Cons split: nat.splits)
qed

lemma norm_indices_None:
  "norm_indices n ps = None \<longleftrightarrow> (\<exists>p \<in> set ps. norm_index n p = None)"
  by (induction ps) (auto split: option.splits)

lemma norm_indices_nonneg:
  "norm_indices n ps = Some js \<Longrightarrow> \<forall>p \<in> set ps. 0 \<le> p \<Longrightarrow> js = map nat ps"
proof (induction ps arbitrary: js)
  case Nil
  then show ?case by simp
next
  case (Cons p ps)
  then obtain j js' where j: "norm_index n p = Some j" "norm_indices n ps = Some js'" "js = j # js'"
    by (auto split: option.splits)
  from j(1) Cons.prems(2) have "j = nat p" by (auto simp: norm_index_def split: if_splits)
  with j Cons.IH [of js'] Cons.prems(2) show ?case by simp
qed

lemma length_put_rows_at [simp]: "length (put_rows_at A js rows) = length A"
  by (induction A js rows rule: put_rows_at.induct) simp_all

lemma put_rows_at_other: "j \<notin> set js \<Longrightarrow> put_rows_at A js rows ! j = A ! j"
  by (induction A js rows rule: put_rows_at.induct) simp_all

lemma put_rows_at_map:
  "\<forall>i \<in> set js. i < length A \<Longrightarrow> j \<in> set js \<Longrightarrow> put_rows_at A js (map f js) ! j = f j"
proof (induction js arbitrary: A)
  case Nil
  then show ?case by simp
next
  case (Cons i js)
  show ?case
  proof (cases "j \<in> set js")
    case True
    with Cons.IH [of "A[i := f i]"] Cons.prems show ?thesis by simp
  next
    case False
    with Cons.prems have "j = i" by simp
    with False Cons.prems show ?thesis by (simp add: put_rows_at_other)
  qed
qed

lemma fold_put_length [simp]:
  "length (fold (\<lambda>(c, x) r. r[c := x]) cxs row) = length row"
  by (induction cxs arbitrary: row) auto

lemma fold_put_map:
  "v < length row \<Longrightarrow>
   fold (\<lambda>(c, x) r. r[c := x]) (zip cs (map h cs)) row ! v = (if v \<in> set cs then h v else row ! v)"
proof (induction cs arbitrary: row)
  case Nil
  then show ?case by simp
next
  case (Cons c cs)
  from Cons.IH [of "row[c := h c]"] Cons.prems show ?case
    by (auto simp: nth_list_update)
qed

lemma map2_same: "map2 f (map g xs) (map h xs) = map (\<lambda>x. f (g x) (h x)) xs"
  by (induction xs) simp_all

lemma np_where_map: "np_where (map P xs) = filter (\<lambda>i. P (xs ! i)) [0..<length xs]"
  unfolding np_where_def by (rule filter_cong) simp_all

lemma nth_filter_positions: "map (\<lambda>k. xs ! k) (filter (\<lambda>k. P (xs ! k)) [0..<length xs]) = filter P xs"
proof -
  have "filter P xs = filter P (map (\<lambda>k. xs ! k) [0..<length xs])" by (simp add: map_nth)
  also have "\<dots> = map (\<lambda>k. xs ! k) (filter (\<lambda>k. P (xs ! k)) [0..<length xs])"
    by (simp add: filter_map comp_def)
  finally show ?thesis by simp
qed

lemma np_where_positions:
  "map (\<lambda>k. xs ! k) (np_where (map P (map f xs))) = filter (\<lambda>x. P (f x)) xs"
proof -
  have "np_where (map P (map f xs)) = np_where (map (\<lambda>x. P (f x)) xs)"
    by (simp add: comp_def)
  also have "\<dots> = filter (\<lambda>k. P (f (xs ! k))) [0..<length xs]"
    by (rule np_where_map)
  finally show ?thesis
    using nth_filter_positions [of xs "\<lambda>x. P (f x)"] by simp
qed

lemma take_ix_Inr:
  assumes "take_ix A ps cs = Inr U"
  shows "length U = length ps"
    and "k < length ps \<Longrightarrow> U ! k = map (\<lambda>c. row_at A (ps ! k) ! c) cs"
    and "cs \<noteq> [] \<Longrightarrow> p \<in> set ps \<Longrightarrow> norm_index (length A) p \<noteq> None"
proof -
  show "length U = length ps"
    using assms norm_indices_Some [of "length A" ps]
    by (auto simp: take_ix_def split: if_splits option.splits)
  show "U ! k = map (\<lambda>c. row_at A (ps ! k) ! c) cs" if "k < length ps"
  proof (cases "cs = []")
    case True
    with assms that show ?thesis by (auto simp: take_ix_def)
  next
    case False
    with assms that have "ps \<noteq> []" by auto
    with False assms obtain js where js: "norm_indices (length A) ps = Some js"
      and U: "U = map (\<lambda>j. map (\<lambda>c. A ! j ! c) cs) js"
      by (auto simp: take_ix_def split: option.splits)
    from norm_indices_Some [OF js] that have "norm_index (length A) (ps ! k) = Some (js ! k)"
      and "k < length js" by simp_all
    with U show ?thesis by (simp add: row_at_def)
  qed
  show "norm_index (length A) p \<noteq> None" if "cs \<noteq> []" "p \<in> set ps"
  proof -
    from that have "ps \<noteq> []" by auto
    with that assms have "norm_indices (length A) ps \<noteq> None"
      by (auto simp: take_ix_def split: option.splits)
    with that show ?thesis by (simp add: norm_indices_None)
  qed
qed

lemma take_ix_Inl:
  "take_ix A ps cs = Inl e \<longleftrightarrow>
     e = IndexError \<and> ps \<noteq> [] \<and> cs \<noteq> [] \<and> (\<exists>p \<in> set ps. norm_index (length A) p = None)"
  using norm_indices_None [of "length A" ps]
  by (auto simp: take_ix_def split: option.splits)

lemma put_cols_nth:
  assumes "k < length R" and "k < length M"
  shows "put_cols R cs M ! k = fold (\<lambda>(c, x) r. r[c := x]) (zip cs (M ! k)) (R ! k)"
  using assms by (simp add: put_cols_def)

lemma length_put_cols: "length (put_cols R cs M) = min (length R) (length M)"
  by (simp add: put_cols_def)

lemma scale_rows_nth:
  "k < length U \<Longrightarrow> scale_rows w U ! k = map2 (\<lambda>a b. a * b) w (U ! k)"
  by (simp add: scale_rows_def)

section \<open>Transport: the inflow of inner and of boundary points\<close>

lemma inflow_cols_Inr:
  assumes "inflow_cols data ps neg pos = Inr M"
  shows "length M = length ps"
    and "k < length ps \<Longrightarrow> length (M ! k) = length (vG data)"
    and "k < length ps \<Longrightarrow> v < length (vG data) \<Longrightarrow> M ! k ! v =
           (if v \<in> set pos
            then inflow_percentage data ! v * row_at (state data) (ps ! k - 1) ! v
            else if v \<in> set neg
            then inflow_percentage data ! v * row_at (state data) (ps ! k + 1) ! v
            else 0)"
    and "neg \<noteq> [] \<Longrightarrow> p \<in> set ps \<Longrightarrow> norm_index (length (state data)) (p + 1) \<noteq> None"
    and "pos \<noteq> [] \<Longrightarrow> p \<in> set ps \<Longrightarrow> norm_index (length (state data)) (p - 1) \<noteq> None"
proof -
  define Z where "Z = replicate (length ps) (replicate (length (vG data)) (0::real))"
  define wn where "wn = map (\<lambda>v. inflow_percentage data ! v) neg"
  define wp where "wp = map (\<lambda>v. inflow_percentage data ! v) pos"
  from assms obtain upper lower where
    up: "take_ix (state data) (map (\<lambda>p. p + 1) ps) neg = Inr upper" and
    lo: "take_ix (state data) (map (\<lambda>p. p - 1) ps) pos = Inr lower" and
    M: "M = put_cols (put_cols Z neg (scale_rows wn upper)) pos (scale_rows wp lower)"
    unfolding inflow_cols_def Z_def wn_def wp_def by (auto split: sum.splits)
  have lu: "length upper = length ps" using take_ix_Inr(1) [OF up] by simp
  have ll: "length lower = length ps" using take_ix_Inr(1) [OF lo] by simp
  show len: "length M = length ps"
    by (simp add: M length_put_cols scale_rows_def lu ll Z_def)
  show "norm_index (length (state data)) (p + 1) \<noteq> None" if "neg \<noteq> []" "p \<in> set ps"
    using take_ix_Inr(3) [OF up that(1), of "p + 1"] that(2) by simp
  show "norm_index (length (state data)) (p - 1) \<noteq> None" if "pos \<noteq> []" "p \<in> set ps"
    using take_ix_Inr(3) [OF lo that(1), of "p - 1"] that(2) by simp
  {
    assume k: "k < length ps"
    have u: "scale_rows wn upper ! k =
          map (\<lambda>c. inflow_percentage data ! c * row_at (state data) (ps ! k + 1) ! c) neg"
      using take_ix_Inr(2) [OF up, of k] k lu
      by (simp add: scale_rows_nth wn_def map2_same)
    have l: "scale_rows wp lower ! k =
          map (\<lambda>c. inflow_percentage data ! c * row_at (state data) (ps ! k - 1) ! c) pos"
      using take_ix_Inr(2) [OF lo, of k] k ll
      by (simp add: scale_rows_nth wp_def map2_same)
    have r1: "put_cols Z neg (scale_rows wn upper) ! k =
          fold (\<lambda>(c, x) r. r[c := x]) (zip neg (scale_rows wn upper ! k)) (replicate (length (vG data)) 0)"
      using k lu by (simp add: put_cols_nth Z_def scale_rows_def)
    have m: "M ! k = fold (\<lambda>(c, x) r. r[c := x]) (zip pos (scale_rows wp lower ! k))
                       (put_cols Z neg (scale_rows wn upper) ! k)"
      unfolding M using k lu ll
      by (simp add: put_cols_nth length_put_cols Z_def scale_rows_def)
    show "length (M ! k) = length (vG data)"
      by (simp add: m r1)
    assume v: "v < length (vG data)"
    have "put_cols Z neg (scale_rows wn upper) ! k ! v =
            (if v \<in> set neg
             then inflow_percentage data ! v * row_at (state data) (ps ! k + 1) ! v else 0)"
      unfolding r1 u using v by (simp add: fold_put_map)
    moreover have "length (put_cols Z neg (scale_rows wn upper) ! k) = length (vG data)"
      by (simp add: r1)
    ultimately show "M ! k ! v =
           (if v \<in> set pos
            then inflow_percentage data ! v * row_at (state data) (ps ! k - 1) ! v
            else if v \<in> set neg
            then inflow_percentage data ! v * row_at (state data) (ps ! k + 1) ! v
            else 0)"
      unfolding m l using v by (simp add: fold_put_map)
  }
qed

lemma inflow_cols_Inl:
  "inflow_cols data ps neg pos = Inl e \<longleftrightarrow>
     e = IndexError \<and> ps \<noteq> [] \<and>
     ((neg \<noteq> [] \<and> (\<exists>p \<in> set ps. norm_index (length (state data)) (p + 1) = None)) \<or>
      (pos \<noteq> [] \<and> (\<exists>p \<in> set ps. norm_index (length (state data)) (p - 1) = None)))"
proof (cases "take_ix (state data) (map (\<lambda>p. p + 1) ps) neg")
  case (Inl e1)
  then have "inflow_cols data ps neg pos = Inl e1" by (simp add: inflow_cols_def)
  with Inl show ?thesis by (auto simp: take_ix_Inl)
next
  case up: (Inr upper)
  then have n: "\<not> (ps \<noteq> [] \<and> neg \<noteq> [] \<and> (\<exists>p \<in> set ps. norm_index (length (state data)) (p + 1) = None))"
    using take_ix_Inl [of "state data" "map (\<lambda>p. p + 1) ps" neg IndexError] by auto
  show ?thesis
  proof (cases "take_ix (state data) (map (\<lambda>p. p - 1) ps) pos")
    case (Inl e2)
    with up have "inflow_cols data ps neg pos = Inl e2" by (simp add: inflow_cols_def)
    with Inl n show ?thesis by (auto simp: take_ix_Inl)
  next
    case (Inr lower)
    then have "\<not> (ps \<noteq> [] \<and> pos \<noteq> [] \<and> (\<exists>p \<in> set ps. norm_index (length (state data)) (p - 1) = None))"
      using take_ix_Inl [of "state data" "map (\<lambda>p. p - 1) ps" pos IndexError] by auto
    moreover from up Inr have "\<exists>M. inflow_cols data ps neg pos = Inr M"
      by (simp add: inflow_cols_def)
    ultimately show ?thesis using n by auto
  qed
qed

lemma inflow_cols_cong:
  assumes "set neg = set neg'" and "set pos = set pos'"
  shows "inflow_cols data ps neg pos = inflow_cols data ps neg' pos'"
proof (cases "inflow_cols data ps neg pos")
  case (Inl e)
  from assms have "neg = [] \<longleftrightarrow> neg' = []" "pos = [] \<longleftrightarrow> pos' = []"
    by (metis set_empty)+
  with Inl have "inflow_cols data ps neg' pos' = Inl e"
    unfolding inflow_cols_Inl by simp
  with Inl show ?thesis by simp
next
  case (Inr M)
  from assms have e: "neg = [] \<longleftrightarrow> neg' = []" "pos = [] \<longleftrightarrow> pos' = []"
    by (metis set_empty)+
  have "\<not> (\<exists>e. inflow_cols data ps neg' pos' = Inl e)"
  proof
    assume "\<exists>e. inflow_cols data ps neg' pos' = Inl e"
    then obtain e' where "inflow_cols data ps neg' pos' = Inl e'" ..
    with e have "inflow_cols data ps neg pos = Inl e'"
      unfolding inflow_cols_Inl by simp
    with Inr show False by simp
  qed
  then obtain M' where M': "inflow_cols data ps neg' pos' = Inr M'"
    by (cases "inflow_cols data ps neg' pos'") auto
  have "M = M'"
  proof (rule nth_equalityI)
    show "length M = length M'"
      using inflow_cols_Inr(1) [OF Inr] inflow_cols_Inr(1) [OF M'] by simp
  next
    fix k assume "k < length M"
    then have k: "k < length ps" using inflow_cols_Inr(1) [OF Inr] by simp
    show "M ! k = M' ! k"
    proof (rule nth_equalityI)
      show "length (M ! k) = length (M' ! k)"
        using inflow_cols_Inr(2) [OF Inr k] inflow_cols_Inr(2) [OF M' k] by simp
    next
      fix v assume "v < length (M ! k)"
      then have v: "v < length (vG data)" using inflow_cols_Inr(2) [OF Inr k] by simp
      show "M ! k ! v = M' ! k ! v"
        unfolding inflow_cols_Inr(3) [OF Inr k v] inflow_cols_Inr(3) [OF M' k v] assms ..
    qed
  qed
  with Inr M' show ?thesis by simp
qed

lemma well_shaped_pv0:
  assumes "well_shaped data" and "v < length (vG data)"
  shows "column 0 (effective_velocities data) ! v = pv0 data v"
    and "inflow_percentage data ! v = dt data / dp data * \<bar>pv0 data v\<bar>"
proof -
  from assms have "vG data ! v \<in> set (vG data)" by simp
  with assms(1) have "length (vG data ! v) = length (velocity_offset data)"
    and "0 < length (velocity_offset data)"
    by (simp_all add: well_shaped_def)
  then show c: "column 0 (effective_velocities data) ! v = pv0 data v"
    using assms(2) by (simp add: column_def effective_velocities_def pv0_def)
  show "inflow_percentage data ! v = dt data / dp data * \<bar>pv0 data v\<bar>"
    using c assms(2) by (simp add: inflow_percentage_def column_def effective_velocities_def)
qed

lemma length_column_pv [simp]: "length (column 0 (effective_velocities data)) = length (vG data)"
  by (simp add: column_def effective_velocities_def)

lemma inner_as_inflow_cols:
  assumes "well_shaped data"
  shows "transport_inflow_innerPoint data ps =
           inflow_cols data ps (filter (\<lambda>v. pv0 data v < 0) [0..<length (vG data)])
                               (filter (\<lambda>v. 0 < pv0 data v) [0..<length (vG data)])"
proof -
  have n: "np_where (map (\<lambda>x. x < 0) (column 0 (effective_velocities data))) =
           filter (\<lambda>v. pv0 data v < 0) [0..<length (vG data)]"
    unfolding np_where_map using well_shaped_pv0(1) [OF assms]
    by (auto intro: filter_cong)
  have p: "np_where (map (\<lambda>x. 0 < x) (column 0 (effective_velocities data))) =
           filter (\<lambda>v. 0 < pv0 data v) [0..<length (vG data)]"
    unfolding np_where_map using well_shaped_pv0(1) [OF assms]
    by (auto intro: filter_cong)
  show ?thesis
    unfolding transport_inflow_innerPoint_def inflow_cols_def Let_def n p
    by (simp split: sum.splits)
qed

lemma boundary_as_inflow_cols:
  assumes "well_shaped data"
  shows "transport_inflow_boundaryPoint data ps incoming =
           (case norm_indices (length (vG data)) incoming of
              None \<Rightarrow> Inl IndexError
            | Some inc \<Rightarrow> inflow_cols data ps (filter (\<lambda>v. pv0 data v < 0) inc)
                                              (filter (\<lambda>v. 0 < pv0 data v) inc))"
proof (cases "norm_indices (length (vG data)) incoming")
  case None
  then show ?thesis
    by (simp add: transport_inflow_boundaryPoint_def Let_def effective_velocities_def)
next
  case (Some inc)
  have lt: "\<forall>v \<in> set inc. v < length (vG data)"
  proof
    fix v assume "v \<in> set inc"
    then obtain k where "k < length inc" "inc ! k = v" by (auto simp: in_set_conv_nth)
    with norm_indices_Some [OF Some] show "v < length (vG data)"
      using norm_index_less by fastforce
  qed
  define c0 where "c0 = column 0 (effective_velocities data)"
  have n: "map (\<lambda>k. inc ! k) (np_where (map (\<lambda>x. x < 0) (map (\<lambda>v. c0 ! v) inc))) =
           filter (\<lambda>v. pv0 data v < 0) inc"
  proof -
    have "map (\<lambda>k. inc ! k) (np_where (map (\<lambda>x. x < 0) (map (\<lambda>v. c0 ! v) inc))) =
          filter (\<lambda>v. c0 ! v < 0) inc"
      by (rule np_where_positions)
    also have "\<dots> = filter (\<lambda>v. pv0 data v < 0) inc"
      using lt well_shaped_pv0(1) [OF assms] by (auto simp: c0_def intro: filter_cong)
    finally show ?thesis .
  qed
  have p: "map (\<lambda>k. inc ! k) (np_where (map (\<lambda>x. 0 < x) (map (\<lambda>v. c0 ! v) inc))) =
           filter (\<lambda>v. 0 < pv0 data v) inc"
  proof -
    have "map (\<lambda>k. inc ! k) (np_where (map (\<lambda>x. 0 < x) (map (\<lambda>v. c0 ! v) inc))) =
          filter (\<lambda>v. 0 < c0 ! v) inc"
      by (rule np_where_positions)
    also have "\<dots> = filter (\<lambda>v. 0 < pv0 data v) inc"
      using lt well_shaped_pv0(1) [OF assms] by (auto simp: c0_def intro: filter_cong)
    finally show ?thesis .
  qed
  have l: "length (effective_velocities data) = length (vG data)"
    by (simp add: effective_velocities_def)
  have "transport_inflow_boundaryPoint data ps incoming =
          inflow_cols data ps
            (map (\<lambda>k. inc ! k) (np_where (map (\<lambda>x. x < 0) (map (\<lambda>v. c0 ! v) inc))))
            (map (\<lambda>k. inc ! k) (np_where (map (\<lambda>x. 0 < x) (map (\<lambda>v. c0 ! v) inc))))"
    unfolding transport_inflow_boundaryPoint_def inflow_cols_def Let_def l Some c0_def
    by (simp split: sum.splits)
  then show ?thesis unfolding n p Some by simp
qed

lemma inner_inflow_entry:
  assumes "well_shaped data" and "transport_inflow_innerPoint data ps = Inr A"
      and "k < length ps" and "v < length (vG data)"
  shows "A ! k ! v = inflow_entry data (ps ! k) v"
proof -
  from assms(2) have c: "inflow_cols data ps (filter (\<lambda>v. pv0 data v < 0) [0..<length (vG data)])
                               (filter (\<lambda>v. 0 < pv0 data v) [0..<length (vG data)]) = Inr A"
    by (simp add: inner_as_inflow_cols [OF assms(1)])
  show ?thesis
    unfolding inflow_cols_Inr(3) [OF c assms(3,4)] inflow_entry_def
      well_shaped_pv0(2) [OF assms(1,4)]
    using assms(4) by auto
qed

lemma boundary_inflow_entry:
  assumes "well_shaped data" and "norm_indices (length (vG data)) incoming = Some inc"
      and "transport_inflow_boundaryPoint data ps incoming = Inr B"
      and "k < length ps" and "v < length (vG data)"
  shows "B ! k ! v = (if v \<in> set inc then inflow_entry data (ps ! k) v else 0)"
proof -
  from assms(2,3) have c: "inflow_cols data ps (filter (\<lambda>v. pv0 data v < 0) inc)
                               (filter (\<lambda>v. 0 < pv0 data v) inc) = Inr B"
    by (simp add: boundary_as_inflow_cols [OF assms(1)])
  show ?thesis
    unfolding inflow_cols_Inr(3) [OF c assms(4,5)] inflow_entry_def
      well_shaped_pv0(2) [OF assms(1,5)]
    by auto
qed

lemma flow_data_shaped: "well_shaped flow_data"
  by (simp add: well_shaped_def flow_data_def)

lemma boundary_inflow_returns:
  assumes "well_shaped data" and "norm_indices (length (vG data)) incoming = Some inc"
      and "(\<exists>v \<in> set inc. pv0 data v < 0) \<longrightarrow>
             (\<forall>p \<in> set ps. norm_index (length (state data)) (p + 1) \<noteq> None)"
      and "(\<exists>v \<in> set inc. 0 < pv0 data v) \<longrightarrow>
             (\<forall>p \<in> set ps. norm_index (length (state data)) (p - 1) \<noteq> None)"
  shows "\<exists>B. transport_inflow_boundaryPoint data ps incoming = Inr B"
proof -
  have n: "filter (\<lambda>v. pv0 data v < 0) inc \<noteq> [] \<longleftrightarrow> (\<exists>v \<in> set inc. pv0 data v < 0)"
    by (simp add: filter_empty_conv)
  have p: "filter (\<lambda>v. 0 < pv0 data v) inc \<noteq> [] \<longleftrightarrow> (\<exists>v \<in> set inc. 0 < pv0 data v)"
    by (simp add: filter_empty_conv)
  have "inflow_cols data ps (filter (\<lambda>v. pv0 data v < 0) inc)
          (filter (\<lambda>v. 0 < pv0 data v) inc) \<noteq> Inl e" for e
    unfolding inflow_cols_Inl n p using assms(3,4) by blast
  then obtain B where "inflow_cols data ps (filter (\<lambda>v. pv0 data v < 0) inc)
          (filter (\<lambda>v. 0 < pv0 data v) inc) = Inr B"
    by (cases "inflow_cols data ps (filter (\<lambda>v. pv0 data v < 0) inc)
          (filter (\<lambda>v. 0 < pv0 data v) inc)") auto
  then show ?thesis
    by (simp add: boundary_as_inflow_cols [OF assms(1)] assms(2))
qed

text \<open>
  Claim C10. For a well-shaped state with a non-zero space step and an array
  \<open>incoming_velocities\<close> of valid velocity indices: the boundary-aware inflow returns
  whenever the neighbours that the incoming velocities need exist (the points \<open>p + 1\<close>
  if some incoming velocity is negative, the points \<open>p - 1\<close> if some is positive). Where
  it returns, its entry at a velocity index that is not incoming is zero and its entry at
  an incoming velocity index is the inflow of the generic scheme, which is the entry of
  \<open>transport_inflow_innerPoint\<close> whenever that returns too. When every velocity index is
  incoming, the two functions have the same outcome: the same array, or the same
  exception.
\<close>

theorem boundary_inflow_refines_inner:
  assumes shaped: "well_shaped data" and step: "dp data \<noteq> 0"
      and valid: "norm_indices (length (vG data)) incoming = Some inc"
  shows "(((\<exists>v \<in> set inc. pv0 data v < 0) \<longrightarrow>
             (\<forall>p \<in> set ps. norm_index (length (state data)) (p + 1) \<noteq> None)) \<and>
          ((\<exists>v \<in> set inc. 0 < pv0 data v) \<longrightarrow>
             (\<forall>p \<in> set ps. norm_index (length (state data)) (p - 1) \<noteq> None)) \<longrightarrow>
            (\<exists>B. transport_inflow_boundaryPoint data ps incoming = Inr B)) \<and>
         (\<forall>B. transport_inflow_boundaryPoint data ps incoming = Inr B \<longrightarrow>
            (\<forall>k < length ps. \<forall>v < length (vG data).
               B ! k ! v = (if v \<in> set inc then inflow_entry data (ps ! k) v else 0)) \<and>
            (\<forall>A. transport_inflow_innerPoint data ps = Inr A \<longrightarrow>
               (\<forall>k < length ps. \<forall>v < length (vG data).
                  B ! k ! v = (if v \<in> set inc then A ! k ! v else 0)))) \<and>
         (set inc = {0..<length (vG data)} \<longrightarrow>
            transport_inflow_boundaryPoint data ps incoming = transport_inflow_innerPoint data ps)"
proof (intro conjI allI impI)
  assume "((\<exists>v \<in> set inc. pv0 data v < 0) \<longrightarrow>
             (\<forall>p \<in> set ps. norm_index (length (state data)) (p + 1) \<noteq> None)) \<and>
          ((\<exists>v \<in> set inc. 0 < pv0 data v) \<longrightarrow>
             (\<forall>p \<in> set ps. norm_index (length (state data)) (p - 1) \<noteq> None))"
  then show "\<exists>B. transport_inflow_boundaryPoint data ps incoming = Inr B"
    using boundary_inflow_returns [OF shaped valid] by blast
next
  fix B k v
  assume B: "transport_inflow_boundaryPoint data ps incoming = Inr B"
    and k: "k < length ps" and v: "v < length (vG data)"
  show "B ! k ! v = (if v \<in> set inc then inflow_entry data (ps ! k) v else 0)"
    using boundary_inflow_entry [OF shaped valid B k v] .
  fix A
  assume "transport_inflow_innerPoint data ps = Inr A"
  from inner_inflow_entry [OF shaped this k v] boundary_inflow_entry [OF shaped valid B k v]
  show "B ! k ! v = (if v \<in> set inc then A ! k ! v else 0)" by simp
next
  assume all: "set inc = {0..<length (vG data)}"
  then have "set (filter (\<lambda>v. pv0 data v < 0) inc) = set (filter (\<lambda>v. pv0 data v < 0) [0..<length (vG data)])"
    and "set (filter (\<lambda>v. 0 < pv0 data v) inc) = set (filter (\<lambda>v. 0 < pv0 data v) [0..<length (vG data)])"
    by simp_all
  from inflow_cols_cong [OF this]
  show "transport_inflow_boundaryPoint data ps incoming = transport_inflow_innerPoint data ps"
    by (simp add: boundary_as_inflow_cols [OF shaped] inner_as_inflow_cols [OF shaped] valid)
qed

theorem boundary_inflow_refines_inner_witness:
  "(\<exists>B. transport_inflow_boundaryPoint flow_data [2] [2] = Inr B \<and>
        B ! 0 ! 0 = 0 \<and> B ! 0 ! 1 = 0 \<and> B ! 0 ! 2 = 1 / 2 * row_at (state flow_data) 1 ! 2) \<and>
   transport_inflow_boundaryPoint flow_data [2] [2] = Inr [[0, 0, 3]] \<and>
   transport_inflow_innerPoint flow_data [2] = Inl IndexError \<and>
   transport_inflow_boundaryPoint flow_data [1] [0, 1, 2] = transport_inflow_innerPoint flow_data [1]"
proof -
  have step: "dp flow_data \<noteq> 0" by (simp add: flow_data_def)
  have v2: "norm_indices (length (vG flow_data)) [2] = Some [2]"
    by (simp add: flow_data_def norm_index_def)
  have v3: "norm_indices (length (vG flow_data)) [0, 1, 2] = Some [0, 1, 2]"
    by (simp add: flow_data_def norm_index_def)
  have l: "length (vG flow_data) = 3" by (simp add: flow_data_def)
  have z: "pv0 flow_data 2 = 1" by (simp add: pv0_def flow_data_def)
  have needs: "((\<exists>v \<in> set [2]. pv0 flow_data v < 0) \<longrightarrow>
             (\<forall>p \<in> set [2]. norm_index (length (state flow_data)) (p + 1) \<noteq> None)) \<and>
          ((\<exists>v \<in> set [2]. 0 < pv0 flow_data v) \<longrightarrow>
             (\<forall>p \<in> set [2]. norm_index (length (state flow_data)) (p - 1) \<noteq> None))"
    by (simp add: z) (simp add: flow_data_def norm_index_def)
  from boundary_inflow_refines_inner [OF flow_data_shaped step v2, of "[2]"] needs
  obtain B where B: "transport_inflow_boundaryPoint flow_data [2] [2] = Inr B"
    by blast
  from boundary_inflow_refines_inner [OF flow_data_shaped step v2, of "[2]"] B
  have a: "\<forall>k < length [2::int]. \<forall>v < length (vG flow_data).
             B ! k ! v = (if v \<in> set [2] then inflow_entry flow_data ([2] ! k) v else 0)"
    by blast
  have e: "inflow_entry flow_data 2 2 = 1 / 2 * row_at (state flow_data) 1 ! 2"
    by (simp add: inflow_entry_def z) (simp add: flow_data_def)
  from a l have "B ! 0 ! 0 = 0" "B ! 0 ! 1 = 0" "B ! 0 ! 2 = inflow_entry flow_data 2 2"
    by simp_all
  with B e have first: "\<exists>B. transport_inflow_boundaryPoint flow_data [2] [2] = Inr B \<and>
        B ! 0 ! 0 = 0 \<and> B ! 0 ! 1 = 0 \<and> B ! 0 ! 2 = 1 / 2 * row_at (state flow_data) 1 ! 2"
    by simp
  have b: "transport_inflow_boundaryPoint flow_data [2] [2] = Inr [[0, 0, 3]]"
    by code_simp
  have i: "transport_inflow_innerPoint flow_data [2] = Inl IndexError"
    by code_simp
  have "set [0, 1, 2] = {0..<length (vG flow_data)}"
    unfolding l by auto
  with boundary_inflow_refines_inner [OF flow_data_shaped step v3, of "[1]"]
  have "transport_inflow_boundaryPoint flow_data [1] [0, 1, 2] = transport_inflow_innerPoint flow_data [1]"
    by blast
  with first b i show ?thesis by blast
qed

section \<open>Transport: the finite-difference step of inner points\<close>

lemma effective_velocities_result [simp]:
  "effective_velocities (data\<lparr>result := r\<rparr>) = effective_velocities data"
  by (simp add: effective_velocities_def)

lemma inflow_percentage_result [simp]:
  "inflow_percentage (data\<lparr>result := r\<rparr>) = inflow_percentage data"
  by (simp add: inflow_percentage_def)

lemma inflow_ignores_result:
  "transport_inflow_innerPoint (data\<lparr>result := r\<rparr>) ps = transport_inflow_innerPoint data ps"
  by (simp add: transport_inflow_innerPoint_def Let_def cong: sum.case_cong)

lemma inner_inflow_valid:
  assumes "well_shaped data" and "transport_inflow_innerPoint data ps = Inr A"
      and "p \<in> set ps" and "v < length (vG data)"
  shows "pv0 data v < 0 \<Longrightarrow> norm_index (length (state data)) (p + 1) \<noteq> None"
    and "0 < pv0 data v \<Longrightarrow> norm_index (length (state data)) (p - 1) \<noteq> None"
proof -
  from assms(2) have c: "inflow_cols data ps (filter (\<lambda>v. pv0 data v < 0) [0..<length (vG data)])
                               (filter (\<lambda>v. 0 < pv0 data v) [0..<length (vG data)]) = Inr A"
    by (simp add: inner_as_inflow_cols [OF assms(1)])
  show "norm_index (length (state data)) (p + 1) \<noteq> None" if "pv0 data v < 0"
  proof -
    from that assms(4) have "v \<in> set (filter (\<lambda>v. pv0 data v < 0) [0..<length (vG data)])" by simp
    then have "filter (\<lambda>v. pv0 data v < 0) [0..<length (vG data)] \<noteq> []"
      by (metis empty_iff empty_set)
    from inflow_cols_Inr(4) [OF c this assms(3)] show ?thesis .
  qed
  show "norm_index (length (state data)) (p - 1) \<noteq> None" if "0 < pv0 data v"
  proof -
    from that assms(4) have "v \<in> set (filter (\<lambda>v. 0 < pv0 data v) [0..<length (vG data)])" by simp
    then have "filter (\<lambda>v. 0 < pv0 data v) [0..<length (vG data)] \<noteq> []"
      by (metis empty_iff empty_set)
    from inflow_cols_Inr(5) [OF c this assms(3)] show ?thesis .
  qed
qed

lemma inflow_entry_at_row:
  assumes "well_shaped data" and "transport_inflow_innerPoint data ps = Inr A"
      and "p \<in> set ps" and "v < length (vG data)"
      and "norm_index (length (state data)) p = Some j"
  shows "inflow_entry data p v = inflow_at_row data j v"
proof -
  consider "pv0 data v < 0" | "0 < pv0 data v" | "pv0 data v = 0" by linarith
  then show ?thesis
  proof cases
    case 1
    with inner_inflow_valid(1) [OF assms(1-4)] obtain a where
      a: "norm_index (length (state data)) (p + 1) = Some a" by auto
    from norm_index_succ [OF assms(5) a] a 1 show ?thesis
      by (simp add: inflow_entry_def inflow_at_row_def row_at_def pv0_def)
  next
    case 2
    with inner_inflow_valid(2) [OF assms(1-4)] obtain b where
      b: "norm_index (length (state data)) (p - 1) = Some b" by auto
    from norm_index_pred [OF assms(5) b] b 2 show ?thesis
      by (simp add: inflow_entry_def inflow_at_row_def row_at_def pv0_def)
  next
    case 3
    then show ?thesis by (simp add: inflow_entry_def inflow_at_row_def pv0_def)
  qed
qed

lemma inner_inflow_shape:
  assumes "well_shaped data" and "transport_inflow_innerPoint data ps = Inr A"
  shows "length A = length ps" and "k < length ps \<Longrightarrow> length (A ! k) = length (vG data)"
proof -
  from assms(2) have c: "inflow_cols data ps (filter (\<lambda>v. pv0 data v < 0) [0..<length (vG data)])
                               (filter (\<lambda>v. 0 < pv0 data v) [0..<length (vG data)]) = Inr A"
    by (simp add: inner_as_inflow_cols [OF assms(1)])
  show "length A = length ps" using inflow_cols_Inr(1) [OF c] .
  show "length (A ! k) = length (vG data)" if "k < length ps"
    using inflow_cols_Inr(2) [OF c that] .
qed

lemma inner_inflow_as_rows:
  assumes "well_shaped data" and "transport_inflow_innerPoint data ps = Inr A"
      and "norm_indices (length (state data)) ps = Some js"
  shows "A = map (\<lambda>j. map (\<lambda>v. inflow_at_row data j v) [0..<length (vG data)]) js"
proof (rule nth_equalityI)
  from norm_indices_Some [OF assms(3)] have l: "length js = length ps"
    and n: "\<And>k. k < length ps \<Longrightarrow> norm_index (length (state data)) (ps ! k) = Some (js ! k)"
    by simp_all
  show "length A = length (map (\<lambda>j. map (\<lambda>v. inflow_at_row data j v) [0..<length (vG data)]) js)"
    using inner_inflow_shape(1) [OF assms(1,2)] l by simp
  fix k assume "k < length A"
  then have k: "k < length ps" using inner_inflow_shape(1) [OF assms(1,2)] by simp
  have "A ! k = map (\<lambda>v. inflow_at_row data (js ! k) v) [0..<length (vG data)]"
  proof (rule nth_equalityI)
    show "length (A ! k) = length (map (\<lambda>v. inflow_at_row data (js ! k) v) [0..<length (vG data)])"
      using inner_inflow_shape(2) [OF assms(1,2) k] by simp
    fix v assume "v < length (A ! k)"
    then have v: "v < length (vG data)" using inner_inflow_shape(2) [OF assms(1,2) k] by simp
    from k have "ps ! k \<in> set ps" by simp
    from inflow_entry_at_row [OF assms(1,2) this v n [OF k]]
      inner_inflow_entry [OF assms(1,2) k v] v
    show "A ! k ! v = map (\<lambda>v. inflow_at_row data (js ! k) v) [0..<length (vG data)] ! v"
      by simp
  qed
  with k l show "A ! k = map (\<lambda>j. map (\<lambda>v. inflow_at_row data j v) [0..<length (vG data)]) js ! k"
    by simp
qed

lemma outflow_as_rows:
  assumes "transport_outflow_remains data ps = Inr R"
  shows "\<exists>js. norm_indices (length (state data)) ps = Some js \<and> R = map (remains_row data) js"
  using assms
  by (auto simp: transport_outflow_remains_def take_rows_def scale_rows_def remains_row_def
      split: option.splits)

lemma remains_row_nth:
  assumes "well_shaped data" and "j < length (state data)" and "v < length (vG data)"
  shows "length (remains_row data j) = length (vG data)"
    and "remains_row data j ! v = (1 - \<bar>pv0 data v\<bar> * dt data / dp data) * (state data ! j ! v)"
proof -
  from assms(1,2) have l: "length (state data ! j) = length (vG data)"
    by (simp add: well_shaped_def)
  then show "length (remains_row data j) = length (vG data)"
    by (simp add: remains_row_def column_def)
  from l assms(3) show "remains_row data j ! v = (1 - \<bar>pv0 data v\<bar> * dt data / dp data) * (state data ! j ! v)"
    by (simp add: remains_row_def column_def pv0_def)
qed

lemma transport_fdm_inner_result:
  assumes "well_shaped data" and "transport_fdm_inner data ps = Inr data'"
  shows "\<exists>js. norm_indices (length (state data)) ps = Some js \<and>
           (\<exists>A. transport_inflow_innerPoint data ps = Inr A) \<and>
           data' = data\<lparr>result := result data'\<rparr> \<and>
           length (result data') = length (result data) \<and>
           (\<forall>j < length (result data). j \<notin> set js \<longrightarrow> result data' ! j = result data ! j) \<and>
           (\<forall>j \<in> set js. result data' ! j =
              map2 (\<lambda>a b. a + b) (remains_row data j)
                (map (\<lambda>v. inflow_at_row data j v) [0..<length (vG data)]))"
proof -
  from assms(1) have lr: "length (result data) = length (state data)"
    by (simp add: well_shaped_def)
  from assms(2) obtain R where R: "transport_outflow_remains data ps = Inr R"
    by (auto simp: transport_fdm_inner_def split: if_splits sum.splits)
  from outflow_as_rows [OF R] obtain js where
    js: "norm_indices (length (state data)) ps = Some js" and Rm: "R = map (remains_row data) js"
    by blast
  have lt: "\<forall>j \<in> set js. j < length (result data)"
  proof
    fix j assume "j \<in> set js"
    then obtain k where "k < length js" "js ! k = j" by (auto simp: in_set_conv_nth)
    with norm_indices_Some [OF js] lr show "j < length (result data)"
      using norm_index_less by fastforce
  qed
  define r1 where "r1 = put_rows_at (result data) js (map (remains_row data) js)"
  have old: "map (\<lambda>j. r1 ! j) js = map (remains_row data) js"
    unfolding r1_def using lt by (auto simp: put_rows_at_map)
  from assms(2) R Rm js lr obtain A where
    A: "transport_inflow_innerPoint data ps = Inr A" and
    d': "data' = data\<lparr>result := put_rows_at r1 js (map2 (\<lambda>r1 r2. map2 (\<lambda>a b. a + b) r1 r2) (map (\<lambda>j. r1 ! j) js) A)\<rparr>"
    by (auto simp: transport_fdm_inner_def put_rows_def take_rows_def Let_def r1_def
        inflow_ignores_result split: if_splits sum.splits)
  define G where "G = (\<lambda>j. map2 (\<lambda>a b. a + b) (remains_row data j)
                (map (\<lambda>v. inflow_at_row data j v) [0..<length (vG data)]))"
  have "map2 (\<lambda>r1 r2. map2 (\<lambda>a b. a + b) r1 r2) (map (\<lambda>j. r1 ! j) js) A = map G js"
    unfolding old inner_inflow_as_rows [OF assms(1) A js] G_def by (rule map2_same)
  with d' have res: "result data' = put_rows_at r1 js (map G js)" by simp
  have "\<forall>j \<in> set js. result data' ! j = G j"
    unfolding res using lt by (auto simp: put_rows_at_map r1_def)
  moreover have "\<forall>j < length (result data). j \<notin> set js \<longrightarrow> result data' ! j = result data ! j"
    unfolding res by (simp add: put_rows_at_other r1_def)
  moreover have "length (result data') = length (result data)"
    unfolding res by (simp add: r1_def)
  moreover have "data' = data\<lparr>result := result data'\<rparr>" using d' by simp
  ultimately show ?thesis using js A unfolding G_def by blast
qed

lemma transport_fdm_inner_returns:
  assumes "well_shaped data" and "p_dim data = 1"
      and "\<forall>p \<in> set ps. norm_index (length (state data)) p \<noteq> None \<and>
                       norm_index (length (state data)) (p + 1) \<noteq> None \<and>
                       norm_index (length (state data)) (p - 1) \<noteq> None"
  shows "\<exists>data'. transport_fdm_inner data ps = Inr data'"
proof -
  from assms(1) have lr: "length (result data) = length (state data)"
    by (simp add: well_shaped_def)
  from assms(3) have "norm_indices (length (state data)) ps \<noteq> None"
    by (simp add: norm_indices_None)
  then obtain js where js: "norm_indices (length (state data)) ps = Some js" by auto
  have "inflow_cols data ps (filter (\<lambda>v. pv0 data v < 0) [0..<length (vG data)])
          (filter (\<lambda>v. 0 < pv0 data v) [0..<length (vG data)]) \<noteq> Inl e" for e
    unfolding inflow_cols_Inl using assms(3) by blast
  then have "transport_inflow_innerPoint data ps \<noteq> Inl e" for e
    by (simp add: inner_as_inflow_cols [OF assms(1)])
  then obtain A where A: "transport_inflow_innerPoint data ps = Inr A"
    by (cases "transport_inflow_innerPoint data ps") auto
  show ?thesis
    by (simp add: transport_fdm_inner_def transport_outflow_remains_def take_rows_def
        put_rows_def Let_def assms(2) js lr inflow_ignores_result A)
qed

lemma transport_fdm_inner_entries:
  assumes "well_shaped data" and "dp data \<noteq> 0"
      and "transport_fdm_inner data ps = Inr data'"
      and "p \<in> set ps" and "v < length (vG data)"
  shows "row_at (result data') p ! v =
           (1 - \<bar>pv0 data v\<bar> * dt data / dp data) * row_at (state data) p ! v +
           (if pv0 data v < 0
            then \<bar>pv0 data v\<bar> * dt data / dp data * row_at (state data) (p + 1) ! v
            else if 0 < pv0 data v
            then \<bar>pv0 data v\<bar> * dt data / dp data * row_at (state data) (p - 1) ! v
            else 0) \<and>
         (pv0 data v = 0 \<longrightarrow> row_at (result data') p ! v = row_at (state data) p ! v) \<and>
         state data' = state data"
proof -
  from assms(1) have lr: "length (result data) = length (state data)"
    by (simp add: well_shaped_def)
  from transport_fdm_inner_result [OF assms(1,3)] obtain js A where
    js: "norm_indices (length (state data)) ps = Some js" and
    A: "transport_inflow_innerPoint data ps = Inr A" and
    d: "data' = data\<lparr>result := result data'\<rparr>" and
    l: "length (result data') = length (result data)" and
    rows: "\<forall>j \<in> set js. result data' ! j =
              map2 (\<lambda>a b. a + b) (remains_row data j)
                (map (\<lambda>v. inflow_at_row data j v) [0..<length (vG data)])"
    by blast
  from assms(4) obtain k where k: "k < length ps" "ps ! k = p" by (auto simp: in_set_conv_nth)
  with norm_indices_Some [OF js] have j: "norm_index (length (state data)) p = Some (js ! k)"
    and kj: "k < length js" by auto
  from kj have mem: "js ! k \<in> set js" by simp
  from j have jl: "js ! k < length (state data)" by (rule norm_index_less)
  have "row_at (result data') p ! v =
          map2 (\<lambda>a b. a + b) (remains_row data (js ! k))
            (map (\<lambda>v. inflow_at_row data (js ! k) v) [0..<length (vG data)]) ! v"
    using rows mem j by (simp add: row_at_def l lr)
  also have "\<dots> = remains_row data (js ! k) ! v + inflow_at_row data (js ! k) v"
    using remains_row_nth(1) [OF assms(1) jl assms(5)] assms(5) by simp
  also have "\<dots> = (1 - \<bar>pv0 data v\<bar> * dt data / dp data) * row_at (state data) p ! v +
                    inflow_entry data p v"
    using remains_row_nth(2) [OF assms(1) jl assms(5)] j
      inflow_entry_at_row [OF assms(1) A assms(4,5) j]
    by (simp add: row_at_def)
  finally have main: "row_at (result data') p ! v =
      (1 - \<bar>pv0 data v\<bar> * dt data / dp data) * row_at (state data) p ! v + inflow_entry data p v" .
  have "state data' = state data" by (subst d) simp
  with main show ?thesis by (simp add: inflow_entry_def)
qed

text \<open>
  Claim C2. For a well-shaped state with a non-zero space step (the model divides reals;
  the floats of the code divide alike only for a non-zero divisor):
  \<open>transport_fdm_inner\<close> returns for a one-dimensional problem whenever every affected
  point and its two neighbours \<open>p + 1\<close> and \<open>p - 1\<close> are indices of rows, as they are
  for inner points. Whenever it returns, then for every affected point \<open>p\<close> and every
  velocity index \<open>v\<close>, with \<open>pv0\<close> the first component of the effective velocity, the
  entry \<^verbatim>\<open>result[p, v]\<close> is \<open>(1 - \<bar>pv0\<bar> * dt / dp) * state[p, v]\<close> plus
  \<open>\<bar>pv0\<bar> * dt / dp\<close> times \<^verbatim>\<open>state[p + 1, v]\<close> if \<open>pv0 < 0\<close>, times
  \<^verbatim>\<open>state[p - 1, v]\<close> if \<open>pv0 > 0\<close>, and plus nothing if \<open>pv0 = 0\<close>, in which case the
  entry is \<^verbatim>\<open>state[p, v]\<close> unchanged. The indices are Python indices, and \<open>state\<close>
  itself is not written.
\<close>

theorem transport_fdm_inner_formula:
  assumes shaped: "well_shaped data" and step: "dp data \<noteq> 0"
  shows "(p_dim data = 1 \<and>
          (\<forall>p \<in> set ps. norm_index (length (state data)) p \<noteq> None \<and>
                          norm_index (length (state data)) (p + 1) \<noteq> None \<and>
                          norm_index (length (state data)) (p - 1) \<noteq> None) \<longrightarrow>
            (\<exists>data'. transport_fdm_inner data ps = Inr data')) \<and>
         (\<forall>data'. transport_fdm_inner data ps = Inr data' \<longrightarrow>
            state data' = state data \<and>
            (\<forall>p \<in> set ps. \<forall>v < length (vG data).
               row_at (result data') p ! v =
                 (1 - \<bar>pv0 data v\<bar> * dt data / dp data) * row_at (state data) p ! v +
                 (if pv0 data v < 0
                  then \<bar>pv0 data v\<bar> * dt data / dp data * row_at (state data) (p + 1) ! v
                  else if 0 < pv0 data v
                  then \<bar>pv0 data v\<bar> * dt data / dp data * row_at (state data) (p - 1) ! v
                  else 0) \<and>
               (pv0 data v = 0 \<longrightarrow> row_at (result data') p ! v = row_at (state data) p ! v)))"
proof (intro conjI allI impI ballI)
  assume "p_dim data = 1 \<and>
          (\<forall>p \<in> set ps. norm_index (length (state data)) p \<noteq> None \<and>
                          norm_index (length (state data)) (p + 1) \<noteq> None \<and>
                          norm_index (length (state data)) (p - 1) \<noteq> None)"
  then show "\<exists>data'. transport_fdm_inner data ps = Inr data'"
    using transport_fdm_inner_returns [OF shaped] by blast
next
  fix data'
  assume r: "transport_fdm_inner data ps = Inr data'"
  from transport_fdm_inner_result [OF shaped r] obtain st where "data' = data\<lparr>result := st\<rparr>"
    by blast
  then show "state data' = state data" by simp
next
  fix data' p v
  assume r: "transport_fdm_inner data ps = Inr data'" and p: "p \<in> set ps"
    and v: "v < length (vG data)"
  from transport_fdm_inner_entries [OF shaped step r p v]
  show "row_at (result data') p ! v =
                 (1 - \<bar>pv0 data v\<bar> * dt data / dp data) * row_at (state data) p ! v +
                 (if pv0 data v < 0
                  then \<bar>pv0 data v\<bar> * dt data / dp data * row_at (state data) (p + 1) ! v
                  else if 0 < pv0 data v
                  then \<bar>pv0 data v\<bar> * dt data / dp data * row_at (state data) (p - 1) ! v
                  else 0)"
    by blast
  assume "pv0 data v = 0"
  with transport_fdm_inner_entries [OF shaped step r p v]
  show "row_at (result data') p ! v = row_at (state data) p ! v" by blast
qed

theorem transport_fdm_inner_formula_witness:
  "(\<exists>data'. transport_fdm_inner flow_data [1] = Inr data' \<and>
      row_at (result data') 1 ! 0 =
        (1 - 1 / 2) * row_at (state flow_data) 1 ! 0 + 1 / 2 * row_at (state flow_data) 2 ! 0 \<and>
      row_at (result data') 1 ! 1 = row_at (state flow_data) 1 ! 1 \<and>
      row_at (result data') 1 ! 2 =
        (1 - 1 / 2) * row_at (state flow_data) 1 ! 2 + 1 / 2 * row_at (state flow_data) 0 ! 2) \<and>
   transport_fdm_inner flow_data [1] =
     Inr (flow_data\<lparr>result := [[0, 0, 0], [11 / 2, 5, 9 / 2], [0, 0, 0]]\<rparr>)"
proof -
  have step: "dp flow_data \<noteq> 0" by (simp add: flow_data_def)
  have inner: "p_dim flow_data = 1 \<and>
          (\<forall>p \<in> set [1]. norm_index (length (state flow_data)) p \<noteq> None \<and>
                          norm_index (length (state flow_data)) (p + 1) \<noteq> None \<and>
                          norm_index (length (state flow_data)) (p - 1) \<noteq> None)"
    by (simp add: flow_data_def norm_index_def)
  from transport_fdm_inner_formula [OF flow_data_shaped step, of "[1]"] inner
  obtain data' where r: "transport_fdm_inner flow_data [1] = Inr data'"
    by blast
  from transport_fdm_inner_formula [OF flow_data_shaped step, of "[1]"] r
  have f: "\<forall>p \<in> set [1]. \<forall>v < length (vG flow_data).
               row_at (result data') p ! v =
                 (1 - \<bar>pv0 flow_data v\<bar> * dt flow_data / dp flow_data) * row_at (state flow_data) p ! v +
                 (if pv0 flow_data v < 0
                  then \<bar>pv0 flow_data v\<bar> * dt flow_data / dp flow_data * row_at (state flow_data) (p + 1) ! v
                  else if 0 < pv0 flow_data v
                  then \<bar>pv0 flow_data v\<bar> * dt flow_data / dp flow_data * row_at (state flow_data) (p - 1) ! v
                  else 0) \<and>
               (pv0 flow_data v = 0 \<longrightarrow> row_at (result data') p ! v = row_at (state flow_data) p ! v)"
    by blast
  have l: "length (vG flow_data) = 3" by (simp add: flow_data_def)
  have z: "pv0 flow_data 0 = - 1" "pv0 flow_data (Suc 0) = 0" "pv0 flow_data 2 = 1"
    "dt flow_data = 1" "dp flow_data = 2"
    by (simp_all add: pv0_def flow_data_def)
  from f l have "row_at (result data') 1 ! 0 =
        (1 - 1 / 2) * row_at (state flow_data) 1 ! 0 + 1 / 2 * row_at (state flow_data) 2 ! 0"
    and "row_at (result data') 1 ! 1 = row_at (state flow_data) 1 ! 1"
    and "row_at (result data') 1 ! 2 =
        (1 - 1 / 2) * row_at (state flow_data) 1 ! 2 + 1 / 2 * row_at (state flow_data) 0 ! 2"
    by (simp_all add: z)
  with r have first: "\<exists>data'. transport_fdm_inner flow_data [1] = Inr data' \<and>
      row_at (result data') 1 ! 0 =
        (1 - 1 / 2) * row_at (state flow_data) 1 ! 0 + 1 / 2 * row_at (state flow_data) 2 ! 0 \<and>
      row_at (result data') 1 ! 1 = row_at (state flow_data) 1 ! 1 \<and>
      row_at (result data') 1 ! 2 =
        (1 - 1 / 2) * row_at (state flow_data) 1 ! 2 + 1 / 2 * row_at (state flow_data) 0 ! 2"
    by blast
  have "transport_fdm_inner flow_data [1] =
     Inr (flow_data\<lparr>result := [[0, 0, 0], [11 / 2, 5, 9 / 2], [0, 0, 0]]\<rparr>)"
    by code_simp
  with first show ?thesis by blast
qed

lemma transport_fdm_inner_writes:
  assumes "transport_fdm_inner data ps = Inr data'"
  shows "\<exists>js. norm_indices (length (result data)) ps = Some js \<and>
           length (result data') = length (result data) \<and>
           (\<forall>j. j \<notin> set js \<longrightarrow> result data' ! j = result data ! j)"
  using assms
  by (auto simp: transport_fdm_inner_def put_rows_def take_rows_def Let_def put_rows_at_other
      split: if_splits sum.splits option.splits)

lemma transport_fdm_inner_row_frame:
  assumes "transport_fdm_inner data ps = Inr data'" and "\<forall>p \<in> set ps. 0 \<le> p"
      and "0 \<le> q" and "q \<notin> set ps"
  shows "row_at (result data') q = row_at (result data) q"
proof -
  from transport_fdm_inner_writes [OF assms(1)] obtain js where
    js: "norm_indices (length (result data)) ps = Some js" and
    l: "length (result data') = length (result data)" and
    f: "\<forall>j. j \<notin> set js \<longrightarrow> result data' ! j = result data ! j"
    by blast
  from norm_indices_nonneg [OF js assms(2)] have m: "js = map nat ps" .
  show ?thesis
  proof (cases "norm_index (length (result data)) q")
    case None
    then show ?thesis by (simp add: row_at_def l)
  next
    case (Some j)
    with assms(3) have "j = nat q" by (auto simp: norm_index_def split: if_splits)
    moreover have "nat q \<notin> set (map nat ps)"
    proof
      assume "nat q \<in> set (map nat ps)"
      then obtain p where "p \<in> set ps" "nat p = nat q" by auto
      with assms(2,3) have "p = q" by auto
      with \<open>p \<in> set ps\<close> assms(4) show False by simp
    qed
    ultimately have "result data' ! j = result data ! j" using f m by simp
    with Some show ?thesis by (simp add: row_at_def l)
  qed
qed

section \<open>Collisions: the Euler scheme\<close>

lemma euler_point_Inr:
  assumes "well_shaped data" and "norm_index (length (state data)) p = Some j"
  shows "euler_point data p =
           Inr (data\<lparr>state := (state data)[j := collided_row data (state data ! j)]\<rparr>)"
proof -
  from assms have "length (state data ! j) = length (vG data)"
    using norm_index_less [OF assms(2)] by (simp add: well_shaped_def)
  moreover from assms(1) have "\<forall>q \<in> set (col data). \<forall>c \<in> set q. c < length (vG data)"
    by (simp add: well_shaped_def)
  ultimately have "\<not> (\<exists>q \<in> set (col data). \<exists>c \<in> set (take 4 q). length (state data ! j) \<le> c)"
    by (metis in_set_takeD not_le)
  with assms(2) show ?thesis
    by (simp add: euler_point_def collided_row_def Let_def)
qed

lemma collided_row_length:
  assumes "well_shaped data" and "length row = length (vG data)"
  shows "length (collided_row data row) = length (vG data)"
  using assms by (simp add: collided_row_def dot_def well_shaped_def)

lemma well_shaped_state_update:
  assumes "well_shaped data" and "length row = length (vG data)"
  shows "well_shaped (data\<lparr>state := (state data)[j := row]\<rparr>)"
proof -
  have "\<forall>r \<in> set ((state data)[j := row]). length r = length (vG data)"
  proof
    fix r assume "r \<in> set ((state data)[j := row])"
    then have "r \<in> insert row (set (state data))" using set_update_subset_insert by fastforce
    with assms show "length r = length (vG data)" by (auto simp: well_shaped_def)
  qed
  with assms(1) show ?thesis by (simp add: well_shaped_def)
qed

lemma euler_scheme_rows:
  assumes "well_shaped data" and "norm_indices (length (state data)) ps = Some js"
      and "distinct js"
  shows "\<exists>data'. euler_scheme data ps = Inr data' \<and>
           data' = data\<lparr>state := state data'\<rparr> \<and>
           length (state data') = length (state data) \<and>
           (\<forall>j < length (state data).
              state data' ! j =
                (if j \<in> set js then collided_row data (state data ! j) else state data ! j))"
  using assms
proof (induction ps arbitrary: data js)
  case Nil
  then show ?case by simp
next
  case (Cons p ps)
  from Cons.prems(2) obtain j js' where j: "norm_index (length (state data)) p = Some j"
    and js': "norm_indices (length (state data)) ps = Some js'" and js: "js = j # js'"
    by (auto split: option.splits)
  from j have jl: "j < length (state data)" by (rule norm_index_less)
  define data1 where "data1 = data\<lparr>state := (state data)[j := collided_row data (state data ! j)]\<rparr>"
  have e: "euler_point data p = Inr data1"
    unfolding data1_def by (rule euler_point_Inr [OF Cons.prems(1) j])
  from Cons.prems(1) jl have "length (state data ! j) = length (vG data)"
    by (simp add: well_shaped_def)
  from collided_row_length [OF Cons.prems(1) this]
  have w1: "well_shaped data1"
    unfolding data1_def by (rule well_shaped_state_update [OF Cons.prems(1)])
  have l1: "length (state data1) = length (state data)" by (simp add: data1_def)
  from js' l1 have n1: "norm_indices (length (state data1)) ps = Some js'" by simp
  from Cons.prems(3) js have dj: "distinct js'" "j \<notin> set js'" by simp_all
  from Cons.IH [OF w1 n1 dj(1)] obtain data' where
    r: "euler_scheme data1 ps = Inr data'" and
    f: "data' = data1\<lparr>state := state data'\<rparr>" and
    l: "length (state data') = length (state data1)" and
    rows: "\<forall>i < length (state data1).
              state data' ! i =
                (if i \<in> set js' then collided_row data1 (state data1 ! i) else state data1 ! i)"
    by blast
  have c: "collided_row data1 = collided_row data"
    by (simp add: data1_def collided_row_def fun_eq_iff)
  have "\<forall>i < length (state data).
          state data' ! i =
            (if i \<in> set js then collided_row data (state data ! i) else state data ! i)"
  proof (intro allI impI)
    fix i assume i: "i < length (state data)"
    show "state data' ! i =
            (if i \<in> set js then collided_row data (state data ! i) else state data ! i)"
    proof (cases "i = j")
      case True
      have "state data1 ! j = collided_row data (state data ! j)"
        using jl by (simp add: data1_def)
      with True rows i l1 dj(2) show ?thesis by (simp add: js)
    next
      case False
      then have "state data1 ! i = state data ! i" by (simp add: data1_def)
      with False rows i l1 show ?thesis by (simp add: js c)
    qed
  qed
  moreover have "euler_scheme data (p # ps) = Inr data'" using e r by simp
  moreover have "data' = data\<lparr>state := state data'\<rparr>" by (subst f) (simp add: data1_def)
  moreover have "length (state data') = length (state data)" using l l1 by simp
  ultimately show ?case by blast
qed

lemma sum_list_map2_nth:
  "length xs = length ys \<Longrightarrow>
   sum_list (map2 (\<lambda>a b. a * b) xs ys) = (\<Sum>k < length ys. xs ! k * ys ! (k::nat) :: real)"
proof -
  assume l: "length xs = length ys"
  have "sum_list (map2 (\<lambda>a b. a * b) xs ys) =
        (\<Sum>k = 0..<length (map2 (\<lambda>a b. a * b) xs ys). map2 (\<lambda>a b. a * b) xs ys ! k)"
    by (rule sum_list_sum_nth)
  also have "\<dots> = (\<Sum>k = 0..<length ys. xs ! k * ys ! k)"
    using l by (intro sum.cong) auto
  finally show ?thesis by (simp add: atLeast0LessThan)
qed

lemma col_factor_nth:
  assumes "k < length quads"
  shows "col_factor quads row ! k =
           row ! (quads ! k ! 0) * row ! (quads ! k ! 2) - row ! (quads ! k ! 1) * row ! (quads ! k ! 3)"
  using assms by (simp add: col_factor_def column_def Let_def)

lemma length_col_factor [simp]: "length (col_factor quads row) = length quads"
  by (simp add: col_factor_def column_def Let_def)

lemma collided_row_nth:
  assumes "well_shaped data" and "length row = length (vG data)" and "v < length (vG data)"
  shows "collided_row data row ! v =
           row ! v + (\<Sum>k < length (col data). col_mat data ! v ! k *
              (row ! (col data ! k ! 0) * row ! (col data ! k ! 2) -
               row ! (col data ! k ! 1) * row ! (col data ! k ! 3)))"
proof -
  from assms(1,3) have lm: "length (col_mat data) = length (vG data)"
    and lr: "length (col_mat data ! v) = length (col data)"
    by (simp_all add: well_shaped_def)
  have "collided_row data row ! v = row ! v + dot (col_mat data) (col_factor (col data) row) ! v"
    using assms(2,3) lm by (simp add: collided_row_def dot_def)
  also have "dot (col_mat data) (col_factor (col data) row) ! v =
             sum_list (map2 (\<lambda>a b. a * b) (col_mat data ! v) (col_factor (col data) row))"
    using assms(3) lm by (simp add: dot_def)
  also have "\<dots> = (\<Sum>k < length (col data). col_mat data ! v ! k * col_factor (col data) row ! k)"
    using sum_list_map2_nth [of "col_mat data ! v" "col_factor (col data) row"] lr by simp
  also have "\<dots> = (\<Sum>k < length (col data). col_mat data ! v ! k *
              (row ! (col data ! k ! 0) * row ! (col data ! k ! 2) -
               row ! (col data ! k ! 1) * row ! (col data ! k ! 3)))"
    by (intro sum.cong) (simp_all add: col_factor_nth)
  finally show ?thesis .
qed

text \<open>
  Claim C3. For a well-shaped state and affected points that are valid indices of
  pairwise different rows, \<open>euler_scheme\<close> returns and changes \<open>state\<close> only: the row of
  every affected point \<open>p\<close> becomes the old row plus \<open>col_mat\<close> applied to the vector of
  the factors \<^verbatim>\<open>state[p, i0] * state[p, i2] - state[p, i1] * state[p, i3]\<close>, one factor for
  each quadruple \<open>(i0, i1, i2, i3)\<close> of \<open>col\<close>; every row that no affected point selects
  keeps its value.
\<close>

theorem euler_scheme_collision:
  assumes "well_shaped data" and "norm_indices (length (state data)) ps = Some js"
      and "distinct js"
  shows "\<exists>data'. euler_scheme data ps = Inr data' \<and>
           data' = data\<lparr>state := state data'\<rparr> \<and>
           length (state data') = length (state data) \<and>
           (\<forall>p \<in> set ps.
              row_at (state data') p =
                map2 (\<lambda>a b. a + b) (row_at (state data) p)
                  (dot (col_mat data) (col_factor (col data) (row_at (state data) p))) \<and>
              (\<forall>k < length (col data).
                 col_factor (col data) (row_at (state data) p) ! k =
                   row_at (state data) p ! (col data ! k ! 0) * row_at (state data) p ! (col data ! k ! 2) -
                   row_at (state data) p ! (col data ! k ! 1) * row_at (state data) p ! (col data ! k ! 3)) \<and>
              (\<forall>v < length (vG data).
                 row_at (state data') p ! v =
                   row_at (state data) p ! v +
                   (\<Sum>k < length (col data). col_mat data ! v ! k *
                      (row_at (state data) p ! (col data ! k ! 0) * row_at (state data) p ! (col data ! k ! 2) -
                       row_at (state data) p ! (col data ! k ! 1) * row_at (state data) p ! (col data ! k ! 3))))) \<and>
           (\<forall>j < length (state data). j \<notin> set js \<longrightarrow> state data' ! j = state data ! j)"
proof -
  from euler_scheme_rows [OF assms] obtain data' where
    r: "euler_scheme data ps = Inr data'" and
    f: "data' = data\<lparr>state := state data'\<rparr>" and
    l: "length (state data') = length (state data)" and
    rows: "\<forall>j < length (state data).
              state data' ! j =
                (if j \<in> set js then collided_row data (state data ! j) else state data ! j)"
    by blast
  have affected: "row_at (state data') p = collided_row data (row_at (state data) p) \<and>
                  length (row_at (state data) p) = length (vG data)" if "p \<in> set ps" for p
  proof -
    from that obtain k where k: "k < length ps" "ps ! k = p" by (auto simp: in_set_conv_nth)
    with norm_indices_Some [OF assms(2)] have j: "norm_index (length (state data)) p = Some (js ! k)"
      and "k < length js" by auto
    then have m: "js ! k \<in> set js" by simp
    from j have jl: "js ! k < length (state data)" by (rule norm_index_less)
    with assms(1) have "length (state data ! (js ! k)) = length (vG data)"
      by (simp add: well_shaped_def)
    with rows jl m j show ?thesis by (simp add: row_at_def l)
  qed
  have "\<forall>p \<in> set ps.
          row_at (state data') p =
            map2 (\<lambda>a b. a + b) (row_at (state data) p)
              (dot (col_mat data) (col_factor (col data) (row_at (state data) p))) \<and>
          (\<forall>k < length (col data).
             col_factor (col data) (row_at (state data) p) ! k =
               row_at (state data) p ! (col data ! k ! 0) * row_at (state data) p ! (col data ! k ! 2) -
               row_at (state data) p ! (col data ! k ! 1) * row_at (state data) p ! (col data ! k ! 3)) \<and>
          (\<forall>v < length (vG data).
             row_at (state data') p ! v =
               row_at (state data) p ! v +
               (\<Sum>k < length (col data). col_mat data ! v ! k *
                  (row_at (state data) p ! (col data ! k ! 0) * row_at (state data) p ! (col data ! k ! 2) -
                   row_at (state data) p ! (col data ! k ! 1) * row_at (state data) p ! (col data ! k ! 3))))"
  proof (intro ballI conjI allI impI)
    fix p assume p: "p \<in> set ps"
    from affected [OF p] show "row_at (state data') p =
            map2 (\<lambda>a b. a + b) (row_at (state data) p)
              (dot (col_mat data) (col_factor (col data) (row_at (state data) p)))"
      by (simp add: collided_row_def)
    fix k assume "k < length (col data)"
    then show "col_factor (col data) (row_at (state data) p) ! k =
               row_at (state data) p ! (col data ! k ! 0) * row_at (state data) p ! (col data ! k ! 2) -
               row_at (state data) p ! (col data ! k ! 1) * row_at (state data) p ! (col data ! k ! 3)"
      by (rule col_factor_nth)
  next
    fix p v assume p: "p \<in> set ps" and v: "v < length (vG data)"
    from affected [OF p] collided_row_nth [OF assms(1) _ v, of "row_at (state data) p"]
    show "row_at (state data') p ! v =
               row_at (state data) p ! v +
               (\<Sum>k < length (col data). col_mat data ! v ! k *
                  (row_at (state data) p ! (col data ! k ! 0) * row_at (state data) p ! (col data ! k ! 2) -
                   row_at (state data) p ! (col data ! k ! 1) * row_at (state data) p ! (col data ! k ! 3)))"
      by simp
  qed
  moreover have "\<forall>j < length (state data). j \<notin> set js \<longrightarrow> state data' ! j = state data ! j"
    using rows by simp
  ultimately show ?thesis using r f l by blast
qed

theorem euler_scheme_collision_witness:
  "euler_scheme flow_data [0, 1] = Inr (flow_data\<lparr>state := [[0, 4, 2], [3, 7, 5], [7, 8, 9]]\<rparr>) \<and>
   [[0, 4, 2], [3, 7, 5], [7, 8, 9]] ! 2 = state flow_data ! (2::nat)"
proof -
  have n: "norm_indices (length (state flow_data)) [0, 1] = Some [0, 1]"
    by (simp add: flow_data_def norm_index_def)
  have d: "distinct [0, 1 :: nat]" by simp
  have e: "euler_scheme flow_data [0, 1] =
             Inr (flow_data\<lparr>state := [[0, 4, 2], [3, 7, 5], [7, 8, 9]]\<rparr>)"
    by code_simp
  from euler_scheme_collision [OF flow_data_shaped n d] obtain data' where
    r: "euler_scheme flow_data [0, 1] = Inr data'" and
    f: "\<forall>j < length (state flow_data). j \<notin> set [0, 1 :: nat] \<longrightarrow>
          state data' ! j = state flow_data ! j"
    by blast
  from r e have "state data' = [[0, 4, 2], [3, 7, 5], [7, 8, 9]]" by simp
  moreover have "(2::nat) < length (state flow_data)" by (simp add: flow_data_def)
  moreover have "(2::nat) \<notin> set [0, 1]" by simp
  ultimately have "[[0, 4, 2], [3, 7, 5], [7, 8, 9]] ! 2 = state flow_data ! (2::nat)"
    using f by metis
  with e show ?thesis by simp
qed

section \<open>Geometry: the transport stage and the points of constant state\<close>

lemma copy_into_same_shape:
  assumes "well_shaped data"
  shows "copy_into (state data) (result data) = Inr (result data)"
proof (cases "state data")
  case Nil
  with assms have "result data = []" by (simp add: well_shaped_def)
  with Nil show ?thesis by (simp add: copy_into_def shape_of_def)
next
  case (Cons row rows)
  define m where "m = length (state data)"
  define n where "n = length (vG data)"
  from assms have lr: "length (result data) = m"
    and rs: "\<forall>r \<in> set (result data). length r = n"
    and ss: "\<forall>r \<in> set (state data). length r = n"
    by (simp_all add: well_shaped_def m_def n_def)
  from Cons have m0: "0 < m" by (simp add: m_def)
  with lr obtain r0 rest where R: "result data = r0 # rest" by (cases "result data") auto
  from Cons ss have sa: "shape_of (state data) = (m, n)" by (simp add: shape_of_def m_def)
  from R rs lr have sb: "shape_of (result data) = (m, n)" by (simp add: shape_of_def)
  have "map (\<lambda>i. map (\<lambda>v. result data ! (if m = 1 then 0 else i) ! (if n = 1 then 0 else v)) [0..<n])
          [0..<m] = map (\<lambda>i. result data ! i) [0..<m]"
  proof (rule map_cong [OF refl])
    fix i assume "i \<in> set [0..<m]"
    then have i: "i < m" by simp
    then have ii: "(if m = 1 then 0 else i) = i" by auto
    from i lr have "result data ! i \<in> set (result data)" by simp
    with rs have li: "length (result data ! i) = n" by blast
    have "map (\<lambda>v. result data ! i ! (if n = 1 then 0 else v)) [0..<n] =
          map (\<lambda>v. result data ! i ! v) [0..<n]"
      by (rule map_cong [OF refl]) auto
    also have "\<dots> = result data ! i"
      using map_nth [of "result data ! i"] li by simp
    finally show "map (\<lambda>v. result data ! (if m = 1 then 0 else i) ! (if n = 1 then 0 else v)) [0..<n] =
                  result data ! i"
      unfolding ii .
  qed
  also have "\<dots> = result data"
    using map_nth [of "result data"] lr by simp
  finally have "map (\<lambda>i. map (\<lambda>v. result data ! (if m = 1 then 0 else i) ! (if n = 1 then 0 else v)) [0..<n])
          [0..<m] = result data" .
  then show ?thesis by (simp add: copy_into_def sa sb)
qed

lemma length_remains_row:
  assumes "well_shaped data" and "j < length (state data)"
  shows "length (remains_row data j) = length (vG data)"
proof -
  from assms have "length (state data ! j) = length (vG data)"
    by (simp add: well_shaped_def)
  then show ?thesis by (simp add: remains_row_def column_def)
qed

lemma transport_fdm_inner_shaped:
  assumes "well_shaped data" and "transport_fdm_inner data ps = Inr data'"
  shows "well_shaped data'"
proof -
  from transport_fdm_inner_result [OF assms] obtain js where
    js: "norm_indices (length (state data)) ps = Some js" and
    d: "data' = data\<lparr>result := result data'\<rparr>" and
    l: "length (result data') = length (result data)" and
    other: "\<forall>j < length (result data). j \<notin> set js \<longrightarrow> result data' ! j = result data ! j" and
    rows: "\<forall>j \<in> set js. result data' ! j =
              map2 (\<lambda>a b. a + b) (remains_row data j)
                (map (\<lambda>v. inflow_at_row data j v) [0..<length (vG data)])"
    by blast
  from assms(1) have lr: "length (result data) = length (state data)"
    and rs: "\<forall>r \<in> set (result data). length r = length (vG data)"
    by (simp_all add: well_shaped_def)
  have "\<forall>r \<in> set (result data'). length r = length (vG data)"
  proof
    fix r assume "r \<in> set (result data')"
    then obtain j where j: "j < length (result data')" "r = result data' ! j"
      by (auto simp: in_set_conv_nth)
    show "length r = length (vG data)"
    proof (cases "j \<in> set js")
      case True
      from j l lr have "j < length (state data)" by simp
      from length_remains_row [OF assms(1) this] True rows j show ?thesis
        by simp
    next
      case False
      with other j l have e: "r = result data ! j" by simp
      from j l have "result data ! j \<in> set (result data)" by simp
      with rs e show ?thesis by blast
    qed
  qed
  moreover have "well_shaped (data\<lparr>result := result data'\<rparr>) \<longleftrightarrow>
      (\<forall>r \<in> set (result data'). length r = length (vG data))"
    using assms(1) l lr by (simp add: well_shaped_def)
  ultimately show ?thesis by (subst d) simp
qed

text \<open>
  Claim C9, as stated, fails. \<open>Geometry_transport\<close> copies the result buffer into
  \<open>state\<close>, so a row that no rule writes ends as the row of the buffer, whatever
  \<open>state\<close> held: here a single rule without transport owns point \<open>0\<close>, the buffer holds
  \<open>[0, 0]\<close> and the state \<open>[1, 2]\<close>.
\<close>

theorem Geometry_transport_stale_buffer:
  "affected_points (rules geometry_constant ! 0) = [0] \<and>
   rule_transport (rules geometry_constant ! 0) stale_data = no_transport stale_data [0] \<and>
   Geometry_transport geometry_constant stale_data = Inr (stale_data\<lparr>state := [[0, 0]]\<rparr>) \<and>
   row_at (state (stale_data\<lparr>state := [[0, 0]]\<rparr>)) 0 \<noteq> row_at (state stale_data) 0"
proof -
  have "Geometry_transport geometry_constant stale_data = Inr (stale_data\<lparr>state := [[0, 0]]\<rparr>)"
    by code_simp
  then show ?thesis
    by (simp add: geometry_constant_def constant_rule_def no_transport_def
        stale_data_def row_at_def norm_index_def)
qed

lemma run_stages_shaped_frame:
  assumes "run_stages fs data = Inr data'" and "well_shaped data"
      and "\<forall>f \<in> set fs. \<forall>d d'. well_shaped d \<and> f d = Inr d' \<longrightarrow>
             well_shaped d' \<and> row_at (result d') p = row_at (result d) p"
  shows "well_shaped data' \<and> row_at (result data') p = row_at (result data) p"
  using assms
proof (induction fs arbitrary: data)
  case Nil
  then show ?case by simp
next
  case (Cons f fs)
  from Cons.prems(1) obtain data1 where f: "f data = Inr data1" and r: "run_stages fs data1 = Inr data'"
    by (cases "f data") auto
  from Cons.prems(2,3) f have s1: "well_shaped data1"
    and r1: "row_at (result data1) p = row_at (result data) p" by auto
  have rest: "\<forall>h \<in> set fs. \<forall>d d'. well_shaped d \<and> h d = Inr d' \<longrightarrow>
             well_shaped d' \<and> row_at (result d') p = row_at (result d) p"
  proof
    fix h assume "h \<in> set fs"
    then have "h \<in> set (f # fs)" by simp
    with Cons.prems(3) show "\<forall>d d'. well_shaped d \<and> h d = Inr d' \<longrightarrow>
             well_shaped d' \<and> row_at (result d') p = row_at (result d) p"
      by blast
  qed
  from Cons.IH [OF r s1 rest] r1 show ?case by simp
qed

lemma run_stages_returns:
  assumes "well_shaped data"
      and "\<forall>f \<in> set fs. \<forall>d. well_shaped d \<longrightarrow> (\<exists>d'. f d = Inr d' \<and> well_shaped d')"
  shows "\<exists>data'. run_stages fs data = Inr data' \<and> well_shaped data'"
  using assms
proof (induction fs arbitrary: data)
  case Nil
  then show ?case by simp
next
  case (Cons f fs)
  from Cons.prems obtain data1 where f: "f data = Inr data1" and s1: "well_shaped data1"
    by auto
  have rest: "\<forall>h \<in> set fs. \<forall>d. well_shaped d \<longrightarrow> (\<exists>d'. h d = Inr d' \<and> well_shaped d')"
  proof
    fix h assume "h \<in> set fs"
    then have "h \<in> set (f # fs)" by simp
    with Cons.prems(2) show "\<forall>d. well_shaped d \<longrightarrow> (\<exists>d'. h d = Inr d' \<and> well_shaped d')"
      by blast
  qed
  from Cons.IH [OF s1 rest] obtain data' where
    "run_stages fs data1 = Inr data'" "well_shaped data'" by blast
  with f show ?case by simp
qed

text \<open>
  Claim C9, amended. Let the state be well-shaped, so that \<open>state\<close> and the result
  buffer have the same shape. Let rule \<open>i\<close> of the geometry have the transport
  \<open>no_transport\<close>, let \<open>p\<close> be one of its points, and let the transport of every other
  rule keep a well-shaped state well-shaped and leave row \<open>p\<close> of the result buffer as it
  is. When \<open>Geometry_transport\<close> returns, row \<open>p\<close> of \<open>state\<close> is row \<open>p\<close> of the result
  buffer as it was before the stage; it is the row of \<open>state\<close> before the stage if the two
  rows were equal then. Whenever the transports of the rules, run in order, return a state
  \<open>data1\<close>, \<open>Geometry_transport\<close> returns \<open>data1\<close> with its result buffer as \<open>state\<close>: the
  copy does not raise. In particular \<open>Geometry_transport\<close> returns whenever the transport of
  every rule returns on well-shaped states.
\<close>

theorem Geometry_transport_constant_rows:
  assumes "well_shaped data"
      and "i < length (rules g)"
      and "\<forall>d. rule_transport (rules g ! i) d = no_transport d (affected_points (rules g ! i))"
      and "p \<in> set (affected_points (rules g ! i))"
      and "\<forall>j < length (rules g). j \<noteq> i \<longrightarrow>
             (\<forall>d d'. well_shaped d \<and> rule_transport (rules g ! j) d = Inr d' \<longrightarrow>
                      well_shaped d' \<and> row_at (result d') p = row_at (result d) p)"
  shows "(\<forall>data'. Geometry_transport g data = Inr data' \<longrightarrow>
            row_at (state data') p = row_at (result data) p \<and>
            (row_at (result data) p = row_at (state data) p \<longrightarrow>
               row_at (state data') p = row_at (state data) p)) \<and>
         (\<forall>data1. run_stages (map rule_transport (rules g)) data = Inr data1 \<longrightarrow>
            Geometry_transport g data = Inr (data1\<lparr>state := result data1\<rparr>)) \<and>
         ((\<forall>j < length (rules g). \<forall>d. well_shaped d \<longrightarrow>
              (\<exists>d'. rule_transport (rules g ! j) d = Inr d')) \<longrightarrow>
            (\<exists>data'. Geometry_transport g data = Inr data'))"
proof -
  have each: "\<forall>f \<in> set (map rule_transport (rules g)). \<forall>d d'. well_shaped d \<and> f d = Inr d' \<longrightarrow>
          well_shaped d' \<and> row_at (result d') p = row_at (result d) p"
  proof
    fix f assume "f \<in> set (map rule_transport (rules g))"
    then obtain j where j: "j < length (rules g)" "f = rule_transport (rules g ! j)"
      by (auto simp: in_set_conv_nth)
    show "\<forall>d d'. well_shaped d \<and> f d = Inr d' \<longrightarrow>
            well_shaped d' \<and> row_at (result d') p = row_at (result d) p"
    proof (cases "j = i")
      case True
      with j assms(3) show ?thesis by (auto simp: no_transport_def)
    next
      case False
      with j assms(5) show ?thesis by simp
    qed
  qed
  have first: "row_at (state data') p = row_at (result data) p \<and>
            (row_at (result data) p = row_at (state data) p \<longrightarrow>
               row_at (state data') p = row_at (state data) p)"
    if "Geometry_transport g data = Inr data'" for data'
  proof -
    from that obtain data1 new_state where
      r: "run_stages (map rule_transport (rules g)) data = Inr data1" and
      c: "copy_into (state data1) (result data1) = Inr new_state" and
      d': "data' = data1\<lparr>state := new_state\<rparr>"
      by (auto simp: Geometry_transport_def split: sum.splits)
    from run_stages_shaped_frame [OF r assms(1) each]
    have s1: "well_shaped data1" and f1: "row_at (result data1) p = row_at (result data) p"
      by simp_all
    from copy_into_same_shape [OF s1] c have "new_state = result data1" by simp
    with d' f1 show ?thesis by simp
  qed
  have second: "\<exists>data'. Geometry_transport g data = Inr data'"
    if all: "\<forall>j < length (rules g). \<forall>d. well_shaped d \<longrightarrow>
              (\<exists>d'. rule_transport (rules g ! j) d = Inr d')"
  proof -
    have "\<forall>f \<in> set (map rule_transport (rules g)). \<forall>d. well_shaped d \<longrightarrow>
            (\<exists>d'. f d = Inr d' \<and> well_shaped d')"
    proof (intro ballI allI impI)
      fix f d assume f: "f \<in> set (map rule_transport (rules g))" and d: "well_shaped d"
      from f obtain j where j: "j < length (rules g)" "f = rule_transport (rules g ! j)"
        by (auto simp: in_set_conv_nth)
      with all d obtain d' where "f d = Inr d'" by blast
      moreover from each f d this have "well_shaped d'" by blast
      ultimately show "\<exists>d'. f d = Inr d' \<and> well_shaped d'" by blast
    qed
    from run_stages_returns [OF assms(1) this] obtain data1 where
      r: "run_stages (map rule_transport (rules g)) data = Inr data1" and s1: "well_shaped data1"
      by blast
    with copy_into_same_shape [OF s1] show ?thesis
      by (simp add: Geometry_transport_def)
  qed
  have third: "Geometry_transport g data = Inr (data1\<lparr>state := result data1\<rparr>)"
    if r: "run_stages (map rule_transport (rules g)) data = Inr data1" for data1
  proof -
    from run_stages_shaped_frame [OF r assms(1) each] have "well_shaped data1" by simp
    from copy_into_same_shape [OF this] r show ?thesis
      by (simp add: Geometry_transport_def)
  qed
  from first second third show ?thesis by blast
qed

lemma synced_data_shaped: "well_shaped synced_data"
  by (simp add: well_shaped_def synced_data_def flow_data_def)

lemma stale_data_shaped: "well_shaped stale_data"
  by (simp add: well_shaped_def stale_data_def)

theorem Geometry_transport_constant_rows_witness:
  "run_stages (map rule_transport (rules geometry3)) synced_data =
     Inr (synced_data\<lparr>result := [[1, 2, 3], [11 / 2, 5, 9 / 2], [7, 8, 9]]\<rparr>) \<and>
   Geometry_transport geometry3 synced_data =
     Inr (synced_data\<lparr>result := [[1, 2, 3], [11 / 2, 5, 9 / 2], [7, 8, 9]],
                      state := [[1, 2, 3], [11 / 2, 5, 9 / 2], [7, 8, 9]]\<rparr>) \<and>
   row_at (state (synced_data\<lparr>result := [[1, 2, 3], [11 / 2, 5, 9 / 2], [7, 8, 9]],
                              state := [[1, 2, 3], [11 / 2, 5, 9 / 2], [7, 8, 9]]\<rparr>)) 2 =
     row_at (state synced_data) 2 \<and>
   (\<exists>data'. Geometry_transport geometry_constant stale_data = Inr data')"
proof -
  have run: "run_stages (map rule_transport (rules geometry3)) synced_data =
     Inr (synced_data\<lparr>result := [[1, 2, 3], [11 / 2, 5, 9 / 2], [7, 8, 9]]\<rparr>)"
    by code_simp
  have i: "2 < length (rules geometry3)" by (simp add: geometry3_def)
  have n: "\<forall>d. rule_transport (rules geometry3 ! 2) d =
                no_transport d (affected_points (rules geometry3 ! 2))"
    by (simp add: geometry3_def constant_rule_def)
  have p: "2 \<in> set (affected_points (rules geometry3 ! 2))"
    by (simp add: geometry3_def constant_rule_def)
  have others: "\<forall>j < length (rules geometry3). j \<noteq> 2 \<longrightarrow>
             (\<forall>d d'. well_shaped d \<and> rule_transport (rules geometry3 ! j) d = Inr d' \<longrightarrow>
                      well_shaped d' \<and> row_at (result d') 2 = row_at (result d) 2)"
  proof (intro allI impI)
    fix j d d'
    assume "j < length (rules geometry3)" and "j \<noteq> 2"
      and t: "well_shaped d \<and> rule_transport (rules geometry3 ! j) d = Inr d'"
    then have "j < 3" by (simp add: geometry3_def)
    with \<open>j \<noteq> 2\<close> have "j = 0 \<or> j = 1" by linarith
    then show "well_shaped d' \<and> row_at (result d') 2 = row_at (result d) 2"
    proof
      assume "j = 0"
      with t show ?thesis by (auto simp: geometry3_def constant_rule_def no_transport_def)
    next
      assume "j = 1"
      with t have s: "well_shaped d" and f: "transport_fdm_inner d [1] = Inr d'"
        by (simp_all add: geometry3_def inner_rule_def)
      from transport_fdm_inner_row_frame [OF f, of 2] transport_fdm_inner_shaped [OF s f]
      show ?thesis by simp
    qed
  qed
  have s: "row_at (result synced_data) 2 = row_at (state synced_data) 2"
    by (simp add: synced_data_def flow_data_def)
  note T = Geometry_transport_constant_rows [OF synced_data_shaped i n p others]
  from T run have "Geometry_transport geometry3 synced_data =
     Inr ((synced_data\<lparr>result := [[1, 2, 3], [11 / 2, 5, 9 / 2], [7, 8, 9]]\<rparr>)
            \<lparr>state := result (synced_data\<lparr>result := [[1, 2, 3], [11 / 2, 5, 9 / 2], [7, 8, 9]]\<rparr>)\<rparr>)"
    by blast
  then have r: "Geometry_transport geometry3 synced_data =
     Inr (synced_data\<lparr>result := [[1, 2, 3], [11 / 2, 5, 9 / 2], [7, 8, 9]],
                      state := [[1, 2, 3], [11 / 2, 5, 9 / 2], [7, 8, 9]]\<rparr>)"
    by simp
  from T r s
  have a: "row_at (state (synced_data\<lparr>result := [[1, 2, 3], [11 / 2, 5, 9 / 2], [7, 8, 9]],
                              state := [[1, 2, 3], [11 / 2, 5, 9 / 2], [7, 8, 9]]\<rparr>)) 2 =
     row_at (state synced_data) 2"
    by blast
  have i0: "0 < length (rules geometry_constant)" by (simp add: geometry_constant_def)
  have n0: "\<forall>d. rule_transport (rules geometry_constant ! 0) d =
                no_transport d (affected_points (rules geometry_constant ! 0))"
    by (simp add: geometry_constant_def constant_rule_def)
  have p0: "0 \<in> set (affected_points (rules geometry_constant ! 0))"
    by (simp add: geometry_constant_def constant_rule_def)
  have others0: "\<forall>j < length (rules geometry_constant). j \<noteq> 0 \<longrightarrow>
             (\<forall>d d'. well_shaped d \<and> rule_transport (rules geometry_constant ! j) d = Inr d' \<longrightarrow>
                      well_shaped d' \<and> row_at (result d') 0 = row_at (result d) 0)"
    by (simp add: geometry_constant_def)
  have all0: "\<forall>j < length (rules geometry_constant). \<forall>d. well_shaped d \<longrightarrow>
              (\<exists>d'. rule_transport (rules geometry_constant ! j) d = Inr d')"
    by (simp add: geometry_constant_def constant_rule_def no_transport_def)
  from Geometry_transport_constant_rows [OF stale_data_shaped i0 n0 p0 others0] all0
  have "\<exists>data'. Geometry_transport geometry_constant stale_data = Inr data'"
    by blast
  with run r a show ?thesis by blast
qed

end
